theory Spec2Isabelle
  imports Complex_Main "HOL-Library.AList" "HOL-Library.Multiset"
begin

text \<open>
  A model of the data engine of \<^verbatim>\<open>script.js\<close>, the class \<^verbatim>\<open>DataViewer\<close>: the CSV parser
  (\<^verbatim>\<open>parseCSV\<close>, \<^verbatim>\<open>parseCSVLine\<close>), filtering and sorting (\<^verbatim>\<open>filterData\<close>), pagination
  (\<^verbatim>\<open>renderTable\<close>, \<^verbatim>\<open>updatePagination\<close>) and the handlers that change the state of the
  viewer.  The functions of the JavaScript library that the class calls are modelled
  first, then the class, then the properties.  Login, fetching and the layout of the page
  are not part of the model.
\<close>

section \<open>Strings\<close>

text \<open>
  A JavaScript string is modelled as a \<^typ>\<open>string\<close>, one \<^typ>\<open>char\<close> per code unit; the
  model covers the code units below 256 (the Latin-1 range).  The characters that
  \<^verbatim>\<open>String.prototype.trim\<close> removes are, in that range, TAB, LF, VT, FF, CR, SPACE and
  NBSP.
\<close>

definition dquote :: char where
  "dquote = CHR 0x22"

definition comma :: char where
  "comma = CHR 0x2C"

definition newline :: char where
  "newline = CHR 0x0A"

definition isWhiteSpace :: "char \<Rightarrow> bool" where
  "isWhiteSpace c =
     (c = CHR 0x09 \<or> c = CHR 0x0A \<or> c = CHR 0x0B \<or> c = CHR 0x0C \<or> c = CHR 0x0D
      \<or> c = CHR 0x20 \<or> c = CHR 0xA0)"

definition trimStart :: "string \<Rightarrow> string" where
  "trimStart s = dropWhile isWhiteSpace s"

definition trim :: "string \<Rightarrow> string" where
  "trim s = rev (dropWhile isWhiteSpace (rev (dropWhile isWhiteSpace s)))"

text \<open>\<^verbatim>\<open>s.split(sep)\<close> for a one-character separator; \<open>cur\<close> is the piece being read.\<close>

fun str_split :: "char \<Rightarrow> string \<Rightarrow> string \<Rightarrow> string list" where
  "str_split sep cur [] = [cur]"
| "str_split sep cur (c # cs) =
     (if c = sep then cur # str_split sep [] cs else str_split sep (cur @ [c]) cs)"

section \<open>CSV parser\<close>

text \<open>
  \<^verbatim>\<open>parseCSVLine\<close>: the loop over the characters of the line, with the loop variables
  \<open>result\<close>, \<open>current\<close> and \<open>inQuotes\<close>.  The look-ahead \<^verbatim>\<open>line[i + 1]\<close> is the head
  of the remaining characters (undefined at the end of the line, hence different from a
  quote), and \<^verbatim>\<open>i++\<close> skips it.
\<close>

fun parseCSVLine_loop :: "string \<Rightarrow> string list \<Rightarrow> string \<Rightarrow> bool \<Rightarrow> string list" where
  "parseCSVLine_loop [] result current inQuotes = result @ [trim current]"
| "parseCSVLine_loop (c # cs) result current inQuotes =
     (if c = dquote then
        (case cs of
           [] \<Rightarrow> parseCSVLine_loop cs result current (\<not> inQuotes)
         | d # rest \<Rightarrow>
             if inQuotes \<and> d = dquote
             then parseCSVLine_loop rest result (current @ [dquote]) inQuotes
             else parseCSVLine_loop cs result current (\<not> inQuotes))
      else if c = comma \<and> \<not> inQuotes then
        parseCSVLine_loop cs (result @ [trim current]) [] inQuotes
      else parseCSVLine_loop cs result (current @ [c]) inQuotes)"

definition parseCSVLine :: "string \<Rightarrow> string list" where
  "parseCSVLine line = parseCSVLine_loop line [] [] False"

text \<open>
  A record is the object built by \<^verbatim>\<open>parseCSV\<close>: its own properties in insertion order,
  as an association list.  Assigning to a key that is already present overwrites its
  value in place.  JavaScript enumerates integer-like keys first; no function below
  depends on the order of the keys.  An assignment to the key \<^verbatim>\<open>__proto__\<close> reaches the
  setter that every object inherits from \<^verbatim>\<open>Object.prototype\<close>; the setter ignores a
  string, so the assignment adds no property.
\<close>

type_synonym row = "(string \<times> string) list"

text \<open>\<^verbatim>\<open>values[index] || ''\<close>: an index out of range reads undefined, which is falsy.\<close>

definition cellOr :: "string list \<Rightarrow> nat \<Rightarrow> string" where
  "cellOr values index = (if index < length values then values ! index else [])"

fun makeRow :: "string list \<Rightarrow> nat \<Rightarrow> string list \<Rightarrow> row \<Rightarrow> row" where
  "makeRow [] index values row = row"
| "makeRow (header # headers) index values row =
     makeRow headers (Suc index) values
       (if header = ''__proto__'' then row
        else AList.update header (cellOr values index) row)"

text \<open>The loop \<^verbatim>\<open>for (let i = 1; i < lines.length; i++)\<close> over the data lines.\<close>

fun parseCSV_loop :: "string list \<Rightarrow> string list \<Rightarrow> row list \<Rightarrow> row list" where
  "parseCSV_loop headers [] data = data"
| "parseCSV_loop headers (line # lines) data =
     (let values = parseCSVLine line in
      if length values = length headers
      then parseCSV_loop headers lines (data @ [makeRow headers 0 values []])
      else parseCSV_loop headers lines data)"

definition csvLines :: "string \<Rightarrow> string list" where
  "csvLines csvText = str_split newline [] (trim csvText)"

definition parseCSV :: "string \<Rightarrow> row list" where
  "parseCSV csvText =
     (let lines = csvLines csvText in
      if length lines < 2 then []
      else parseCSV_loop (parseCSVLine (hd lines)) (tl lines) [])"

section \<open>Numbers\<close>

text \<open>
  A JavaScript number is NaN, an infinity, or a finite double, represented by the rational
  it denotes (the two zeros are one value).  \<open>toDouble\<close> rounds a rational to the nearest
  double, ties to even, as the conversion of a decimal literal and every arithmetic
  operation do.  Addition and subtraction round their result.  Multiplication and
  division are applied by the viewer to a page number or an array length and a page size
  only, and are kept exact: on such integers, far below \<open>2 ^ 53\<close>, the product is exact in
  double arithmetic too, and the rounded quotient has the ceiling of the exact one.
\<close>

datatype jsnum = NaN | Fin rat | PosInf | NegInf

text \<open>The number of binary digits of a positive integer.\<close>

function bitlen :: "int \<Rightarrow> nat" where
  "bitlen n = (if n \<le> 0 then 0 else Suc (bitlen (n div 2)))"
  by pat_completeness auto
termination
  by (relation "measure nat") auto

declare bitlen.simps [simp del]

definition floorLog2 :: "rat \<Rightarrow> int" where
  "floorLog2 q =
     (if 1 \<le> q then int (bitlen \<lfloor>q\<rfloor>) - 1
      else - int (bitlen (\<lceil>1 / q\<rceil> - 1)))"

definition pow2 :: "int \<Rightarrow> rat" where
  "pow2 e = (if 0 \<le> e then 2 ^ nat e else 1 / 2 ^ nat (- e))"

definition roundHalfEven :: "rat \<Rightarrow> int" where
  "roundHalfEven q =
     (let f = \<lfloor>q\<rfloor>; r = q - of_int f in
      if r < 1 / 2 then f else if 1 / 2 < r then f + 1 else if even f then f else f + 1)"

definition toDouble :: "rat \<Rightarrow> jsnum" where
  "toDouble q =
     (if q = 0 then Fin 0
      else
        let a = \<bar>q\<bar>;
            e = max (floorLog2 a) (- 1022);
            u = pow2 (e - 52);
            v = of_int (roundHalfEven (a / u)) * u
        in if 2 ^ 1024 \<le> v then (if 0 < q then PosInf else NegInf)
           else Fin (if 0 < q then v else - v))"

text \<open>The finite doubles are multiples of \<open>2 ^ - 1074\<close>.\<close>

definition doubleValue :: "rat \<Rightarrow> bool" where
  "doubleValue v = (\<exists>k :: int. v = of_int k * pow2 (- 1074))"

definition ofInt :: "int \<Rightarrow> jsnum" where
  "ofInt i = Fin (of_int i)"

definition ofNat :: "nat \<Rightarrow> jsnum" where
  "ofNat n = Fin (of_nat n)"

definition isNaN :: "jsnum \<Rightarrow> bool" where
  "isNaN x = (x = NaN)"

fun js_neg :: "jsnum \<Rightarrow> jsnum" where
  "js_neg NaN = NaN"
| "js_neg (Fin a) = Fin (- a)"
| "js_neg PosInf = NegInf"
| "js_neg NegInf = PosInf"

fun js_add :: "jsnum \<Rightarrow> jsnum \<Rightarrow> jsnum" where
  "js_add NaN y = NaN"
| "js_add x NaN = NaN"
| "js_add (Fin a) (Fin b) = toDouble (a + b)"
| "js_add PosInf NegInf = NaN"
| "js_add NegInf PosInf = NaN"
| "js_add PosInf y = PosInf"
| "js_add NegInf y = NegInf"
| "js_add (Fin a) y = y"

definition js_sub :: "jsnum \<Rightarrow> jsnum \<Rightarrow> jsnum" where
  "js_sub x y = js_add x (js_neg y)"

text \<open>The sign of a number: \<open>None\<close> for NaN.\<close>

fun js_sign :: "jsnum \<Rightarrow> int option" where
  "js_sign NaN = None"
| "js_sign (Fin a) = Some (if a < 0 then - 1 else if a = 0 then 0 else 1)"
| "js_sign PosInf = Some 1"
| "js_sign NegInf = Some (- 1)"

fun js_mul :: "jsnum \<Rightarrow> jsnum \<Rightarrow> jsnum" where
  "js_mul (Fin a) (Fin b) = Fin (a * b)"
| "js_mul x y =
     (case (js_sign x, js_sign y) of
        (Some sx, Some sy) \<Rightarrow>
          if sx * sy = 0 then NaN else if 0 < sx * sy then PosInf else NegInf
      | _ \<Rightarrow> NaN)"

text \<open>Division; a zero divisor is taken as \<open>+0\<close>.\<close>

fun js_div :: "jsnum \<Rightarrow> jsnum \<Rightarrow> jsnum" where
  "js_div NaN y = NaN"
| "js_div x NaN = NaN"
| "js_div (Fin a) (Fin b) =
     (if b \<noteq> 0 then Fin (a / b)
      else if a = 0 then NaN else if 0 < a then PosInf else NegInf)"
| "js_div (Fin a) y = Fin 0"
| "js_div PosInf (Fin b) = (if 0 \<le> b then PosInf else NegInf)"
| "js_div NegInf (Fin b) = (if 0 \<le> b then NegInf else PosInf)"
| "js_div x y = NaN"

fun js_ceil :: "jsnum \<Rightarrow> jsnum" where
  "js_ceil (Fin a) = Fin (of_int \<lceil>a\<rceil>)"
| "js_ceil x = x"

text \<open>\<open>x < y\<close> on numbers: false as soon as an operand is NaN.\<close>

fun js_lt :: "jsnum \<Rightarrow> jsnum \<Rightarrow> bool" where
  "js_lt NaN y = False"
| "js_lt x NaN = False"
| "js_lt (Fin a) (Fin b) = (a < b)"
| "js_lt x PosInf = (x \<noteq> PosInf)"
| "js_lt NegInf y = (y \<noteq> NegInf)"
| "js_lt x y = False"

definition js_le :: "jsnum \<Rightarrow> jsnum \<Rightarrow> bool" where
  "js_le x y = (\<not> isNaN x \<and> \<not> isNaN y \<and> \<not> js_lt y x)"

definition js_min :: "jsnum \<Rightarrow> jsnum \<Rightarrow> jsnum" where
  "js_min x y = (if isNaN x \<or> isNaN y then NaN else if js_lt y x then y else x)"


section \<open>Library functions on strings\<close>

text \<open>\<^verbatim>\<open>toLowerCase\<close> on the Latin-1 range: A to Z, and the capital letters from 0xC0 to 0xDE
  (0xD7 is the multiplication sign).\<close>

definition toLowerChar :: "char \<Rightarrow> char" where
  "toLowerChar c =
     (let n = (of_char c :: nat) in
      if (65 \<le> n \<and> n \<le> 90) \<or> (192 \<le> n \<and> n \<le> 222 \<and> n \<noteq> 215)
      then char_of (n + 32) else c)"

definition toLowerCase :: "string \<Rightarrow> string" where
  "toLowerCase s = map toLowerChar s"

text \<open>\<^verbatim>\<open>s.includes(t)\<close>: \<open>t\<close> occurs in \<open>s\<close> as a contiguous substring.\<close>

fun str_includes :: "string \<Rightarrow> string \<Rightarrow> bool" where
  "str_includes [] t = (t = [])"
| "str_includes (c # cs) t = (take (length t) (c # cs) = t \<or> str_includes cs t)"

definition isDigit :: "char \<Rightarrow> bool" where
  "isDigit c = (48 \<le> (of_char c :: nat) \<and> (of_char c :: nat) \<le> 57)"

definition digitsValue :: "string \<Rightarrow> int" where
  "digitsValue ds = foldl (\<lambda>acc c. 10 * acc + ((of_char c :: int) - 48)) 0 ds"

definition pow10 :: "int \<Rightarrow> rat" where
  "pow10 e = (if 0 \<le> e then 10 ^ nat e else 1 / 10 ^ nat (- e))"

text \<open>An optional sign in front of a numeric literal: whether it is a minus, and the rest.\<close>

definition takeSign :: "string \<Rightarrow> bool \<times> string" where
  "takeSign s =
     (case s of
        [] \<Rightarrow> (False, s)
      | c # r \<Rightarrow> if c = CHR ''-'' then (True, r) else if c = CHR ''+'' then (False, r)
                 else (False, s))"

text \<open>The exponent part of a decimal literal, 0 when what follows the mantissa is not one.\<close>

definition exponentPart :: "string \<Rightarrow> int" where
  "exponentPart s =
     (case s of
        [] \<Rightarrow> 0
      | c # r \<Rightarrow>
          if c = CHR ''e'' \<or> c = CHR ''E'' then
            (let (neg, r') = takeSign r; ds = takeWhile isDigit r' in
             if ds = [] then 0
             else if neg then - digitsValue ds else digitsValue ds)
          else 0)"

text \<open>
  \<^verbatim>\<open>parseFloat\<close>: leading white space is skipped, the longest prefix that is a decimal
  literal (sign, \<^verbatim>\<open>Infinity\<close> or digits with an optional fraction and exponent) is
  converted, and NaN is the result when there is no such prefix.
\<close>

definition parseFloat :: "string \<Rightarrow> jsnum" where
  "parseFloat s =
     (let (neg, s1) = takeSign (trimStart s) in
      if take 8 s1 = ''Infinity'' then (if neg then NegInf else PosInf)
      else
        let ip = takeWhile isDigit s1;
            r1 = dropWhile isDigit s1;
            (fp, r2) =
              (case r1 of
                 [] \<Rightarrow> ([], r1)
               | c # r \<Rightarrow> if c = CHR ''.'' then (takeWhile isDigit r, dropWhile isDigit r)
                          else ([], r1))
        in if ip = [] \<and> fp = [] then NaN
           else
             let q = of_int (digitsValue (ip @ fp)) / 10 ^ length fp * pow10 (exponentPart r2)
             in toDouble (if neg then - q else q))"

text \<open>\<^verbatim>\<open>parseInt\<close> without a radix: decimal, or hexadecimal after \<^verbatim>\<open>0x\<close>.\<close>

definition hexDigitValue :: "char \<Rightarrow> int option" where
  "hexDigitValue c =
     (let n = (of_char c :: int) in
      if 48 \<le> n \<and> n \<le> 57 then Some (n - 48)
      else if 65 \<le> n \<and> n \<le> 70 then Some (n - 55)
      else if 97 \<le> n \<and> n \<le> 102 then Some (n - 87)
      else None)"

definition parseInt :: "string \<Rightarrow> jsnum" where
  "parseInt s =
     (let (neg, s1) = takeSign (trimStart s);
          hex = (case s1 of
                   a # b # r \<Rightarrow> a = CHR ''0'' \<and> (b = CHR ''x'' \<or> b = CHR ''X'')
                 | _ \<Rightarrow> False);
          v = (if hex
               then (let ds = takeWhile (\<lambda>c. hexDigitValue c \<noteq> None) (drop 2 s1) in
                     if ds = [] then None
                     else Some (foldl (\<lambda>acc c. 16 * acc + the (hexDigitValue c)) 0 ds))
               else (let ds = takeWhile isDigit s1 in
                     if ds = [] then None else Some (digitsValue ds)))
      in case v of
           None \<Rightarrow> NaN
         | Some n \<Rightarrow> toDouble (if neg then - of_int n else of_int n))"

text \<open>
  \<^verbatim>\<open>Array.prototype.slice(start, end)\<close>: each argument is truncated to an integer (NaN to 0),
  a negative one counts from the end, and both are clamped to the length.
\<close>

definition relativeIndex :: "jsnum \<Rightarrow> nat \<Rightarrow> nat" where
  "relativeIndex x len =
     (case x of
        NaN \<Rightarrow> 0
      | NegInf \<Rightarrow> 0
      | PosInf \<Rightarrow> len
      | Fin a \<Rightarrow>
          (let i = (if a < 0 then \<lceil>a\<rceil> else \<lfloor>a\<rfloor>) in
           if i < 0 then nat (max (int len + i) 0) else nat (min i (int len))))"

definition slice :: "'a list \<Rightarrow> jsnum \<Rightarrow> jsnum \<Rightarrow> 'a list" where
  "slice xs start stop =
     (let k = relativeIndex start (length xs); final = relativeIndex stop (length xs)
      in take (final - k) (drop k xs))"

text \<open>
  \<^verbatim>\<open>Array.prototype.sort(comparefn)\<close> sorts in place and is stable; a NaN returned by the
  comparator counts as 0.  It is modelled by the stable insertion sort, which yields the
  one order a stable sort can yield when the comparator is consistent; for an
  inconsistent comparator the order is left to the implementation, and the insertion
  sort is one of the permitted outcomes.
\<close>

fun insertSorted :: "('a \<Rightarrow> 'a \<Rightarrow> jsnum) \<Rightarrow> 'a \<Rightarrow> 'a list \<Rightarrow> 'a list" where
  "insertSorted comparefn x [] = [x]"
| "insertSorted comparefn x (y # ys) =
     (if js_lt (Fin 0) (comparefn x y) then y # insertSorted comparefn x ys
      else x # y # ys)"

definition arraySort :: "('a \<Rightarrow> 'a \<Rightarrow> jsnum) \<Rightarrow> 'a list \<Rightarrow> 'a list" where
  "arraySort comparefn xs = foldr (insertSorted comparefn) xs []"


section \<open>The viewer\<close>

text \<open>
  The fields of \<^verbatim>\<open>DataViewer\<close>.  Arrays are objects: \<open>data\<close> and \<open>filteredData\<close> hold
  references into \<open>heap\<close>, and \<open>fresh\<close> is the next unused reference, so that copying an
  array and sorting one in place are different things.  Records are never assigned to
  after \<^verbatim>\<open>parseCSV\<close> has built them and are kept as values.

  Of the page, the model keeps what the functions below compute into it: the rows of the
  table body, the numbers of the pagination line, and the two navigation buttons.
  Styles, class names, ARIA attributes and the page number buttons are left out.
\<close>

datatype direction = Asc | Desc

datatype tbody = NoDataFound | Rows "row list"

datatype info = ShowingAll nat | Showing jsnum jsnum nat

record viewer =
  heap :: "nat \<Rightarrow> row list"
  fresh :: nat
  data :: nat
  filteredData :: nat
  currentPage :: int
  itemsPerPage :: jsnum
  sortColumn :: "string option"
  sortDirection :: direction
  searchTerm :: string
  columnFilter :: string
  tableBody :: tbody
  paginationInfo :: info
  prevDisabled :: bool
  nextDisabled :: bool

definition newArray :: "row list \<Rightarrow> viewer \<Rightarrow> nat \<times> viewer" where
  "newArray xs s = (fresh s, s\<lparr>heap := (heap s)(fresh s := xs), fresh := Suc (fresh s)\<rparr>)"

definition dataRows :: "viewer \<Rightarrow> row list" where
  "dataRows s = heap s (data s)"

definition filteredRows :: "viewer \<Rightarrow> row list" where
  "filteredRows s = heap s (filteredData s)"

definition visibleRows :: "viewer \<Rightarrow> row list" where
  "visibleRows s = (case tableBody s of NoDataFound \<Rightarrow> [] | Rows rs \<Rightarrow> rs)"

subsection \<open>Rendering and pagination\<close>

definition renderTable :: "viewer \<Rightarrow> viewer" where
  "renderTable s =
     (if length (filteredRows s) = 0 then s\<lparr>tableBody := NoDataFound\<rparr>
      else
        let startIndex = (if itemsPerPage s = Fin (- 1) then Fin 0
                          else js_mul (ofInt (currentPage s - 1)) (itemsPerPage s));
            endIndex = (if itemsPerPage s = Fin (- 1) then ofNat (length (filteredRows s))
                        else js_add startIndex (itemsPerPage s));
            pageData = slice (filteredRows s) startIndex endIndex
        in s\<lparr>tableBody := Rows pageData\<rparr>)"

definition totalPages :: "viewer \<Rightarrow> jsnum" where
  "totalPages s =
     (if itemsPerPage s = Fin (- 1) then Fin 1
      else js_ceil (js_div (ofNat (length (filteredRows s))) (itemsPerPage s)))"

definition startItem :: "viewer \<Rightarrow> jsnum" where
  "startItem s =
     (if length (filteredRows s) = 0 then Fin 0
      else js_add (js_mul (ofInt (currentPage s - 1)) (itemsPerPage s)) (Fin 1))"

definition endItem :: "viewer \<Rightarrow> jsnum" where
  "endItem s =
     js_min (js_mul (ofInt (currentPage s)) (itemsPerPage s)) (ofNat (length (filteredRows s)))"

definition updatePagination :: "viewer \<Rightarrow> viewer" where
  "updatePagination s =
     s\<lparr>paginationInfo :=
         (if itemsPerPage s = Fin (- 1) then ShowingAll (length (filteredRows s))
          else Showing (startItem s) (endItem s) (length (filteredRows s))),
       prevDisabled := (currentPage s \<le> 1),
       nextDisabled := js_le (totalPages s) (ofInt (currentPage s))\<rparr>"

subsection \<open>Filtering and sorting\<close>

text \<open>
  Reading a property of a record, \<^verbatim>\<open>row[key]\<close>, yields the record's own value, or else
  the member of \<^verbatim>\<open>Object.prototype\<close> of that name, or else undefined.  Of an inherited
  member the model keeps the text that its \<^verbatim>\<open>toString()\<close> returns: \<^verbatim>\<open>[object Object]\<close>
  for the prototype itself, which \<^verbatim>\<open>__proto__\<close> reads, and the source text of a built-in
  function for the others, in the form in which V8 prints it.
\<close>

datatype jsvalue = Undefined | Str string | Inherited string

definition objectPrototype :: "string \<Rightarrow> string option" where
  "objectPrototype key =
     (if key = ''__proto__'' then Some ''[object Object]''
      else if key = ''constructor'' then Some ''function Object() { [native code] }''
      else if key \<in> set [''hasOwnProperty'', ''isPrototypeOf'', ''propertyIsEnumerable'',
                         ''toLocaleString'', ''toString'', ''valueOf'', ''__defineGetter__'',
                         ''__defineSetter__'', ''__lookupGetter__'', ''__lookupSetter__'']
      then Some (''function '' @ key @ ''() { [native code] }'')
      else None)"

definition getProperty :: "row \<Rightarrow> string \<Rightarrow> jsvalue" where
  "getProperty row key =
     (case map_of row key of
        Some v \<Rightarrow> Str v
      | None \<Rightarrow> (case objectPrototype key of Some t \<Rightarrow> Inherited t | None \<Rightarrow> Undefined))"

text \<open>A method call on undefined raises a TypeError.\<close>

datatype error = TypeError

fun toStringMethod :: "jsvalue \<Rightarrow> error + string" where
  "toStringMethod Undefined = Inl TypeError"
| "toStringMethod (Str v) = Inr v"
| "toStringMethod (Inherited t) = Inr t"

text \<open>
  \<^verbatim>\<open>value?.toString().toLowerCase().includes(term)\<close>, as the truth value that the caller
  reads off the result: on undefined the optional chain stops and the result, undefined,
  is falsy.
\<close>

definition matchValue :: "string \<Rightarrow> jsvalue \<Rightarrow> error + bool" where
  "matchValue term v =
     (if v = Undefined then Inr False
      else (case toStringMethod v of
              Inl e \<Rightarrow> Inl e
            | Inr t \<Rightarrow> Inr (str_includes (toLowerCase t) term)))"

text \<open>\<^verbatim>\<open>Array.prototype.some\<close>: the first truthy result ends the loop, as does an exception.\<close>

fun arraySome :: "('a \<Rightarrow> error + bool) \<Rightarrow> 'a list \<Rightarrow> error + bool" where
  "arraySome f [] = Inr False"
| "arraySome f (x # xs) =
     (case f x of
        Inl e \<Rightarrow> Inl e
      | Inr found \<Rightarrow> if found then Inr True else arraySome f xs)"

text \<open>The callback of \<^verbatim>\<open>filtered.filter\<close>; \<^verbatim>\<open>Object.values(row)\<close> are the record's own
  values.\<close>

definition filterCallback :: "string \<Rightarrow> string \<Rightarrow> row \<Rightarrow> error + bool" where
  "filterCallback term column row =
     (if column \<noteq> [] then matchValue term (getProperty row column)
      else arraySome (matchValue term) (map (\<lambda>kv. Str (snd kv)) row))"

text \<open>\<^verbatim>\<open>filter\<close> keeps the rows on which the callback returns a truthy value.\<close>

definition rowMatches :: "string \<Rightarrow> string \<Rightarrow> row \<Rightarrow> bool" where
  "rowMatches term column row = (filterCallback term column row = Inr True)"

text \<open>\<^verbatim>\<open>a[this.sortColumn]?.toString() || ''\<close>\<close>

definition cellString :: "row \<Rightarrow> string \<Rightarrow> string" where
  "cellString row column =
     (case getProperty row column of Undefined \<Rightarrow> [] | Str v \<Rightarrow> v | Inherited t \<Rightarrow> t)"

text \<open>
  \<^verbatim>\<open>localeCompare(that, locales, options)\<close> is the collation of the host.  It is a
  parameter \<open>lc\<close> of every function that sorts, applied to the two strings, the locale
  (\<open>None\<close> for undefined, the default locale) and the value of the option \<^verbatim>\<open>numeric\<close>.
\<close>

type_synonym collation = "string \<Rightarrow> string \<Rightarrow> string option \<Rightarrow> bool \<Rightarrow> int"

text \<open>The comparator given to \<^verbatim>\<open>filtered.sort\<close>.\<close>

definition compareRows ::
  "collation \<Rightarrow> string \<Rightarrow> direction \<Rightarrow> row \<Rightarrow> row \<Rightarrow> jsnum" where
  "compareRows lc column dir a b =
     (let aVal = cellString a column;
          bVal = cellString b column;
          aNum = parseFloat aVal;
          bNum = parseFloat bVal
      in if \<not> isNaN aNum \<and> \<not> isNaN bNum then
           (if dir = Asc then js_sub aNum bNum else js_sub bNum aNum)
         else
           (let comparison = lc aVal bVal None True in
            ofInt (if dir = Asc then comparison else - comparison)))"

definition filterData :: "collation \<Rightarrow> viewer \<Rightarrow> viewer" where
  "filterData lc s =
     (let (filtered0, s1) = newArray (heap s (data s)) s;
          (filtered, s2) =
            (if searchTerm s \<noteq> []
             then newArray (filter (rowMatches (searchTerm s) (columnFilter s))
                              (heap s1 filtered0)) s1
             else (filtered0, s1));
          s3 = (case sortColumn s of
                  None \<Rightarrow> s2
                | Some column \<Rightarrow>
                    if column = [] then s2
                    else s2\<lparr>heap := (heap s2)
                           (filtered := arraySort (compareRows lc column (sortDirection s))
                                          (heap s2 filtered))\<rparr>)
      in updatePagination (renderTable (s3\<lparr>filteredData := filtered\<rparr>)))"

subsection \<open>Event handlers\<close>

definition handleSort :: "collation \<Rightarrow> string \<Rightarrow> viewer \<Rightarrow> viewer" where
  "handleSort lc column s =
     filterData lc
       (if sortColumn s = Some column
        then s\<lparr>sortDirection := (if sortDirection s = Asc then Desc else Asc)\<rparr>
        else s\<lparr>sortColumn := Some column, sortDirection := Asc\<rparr>)"

definition handleSearch :: "collation \<Rightarrow> string \<Rightarrow> viewer \<Rightarrow> viewer" where
  "handleSearch lc term s = filterData lc (s\<lparr>searchTerm := toLowerCase term, currentPage := 1\<rparr>)"

definition handleColumnFilter ::
  "collation \<Rightarrow> string \<Rightarrow> viewer \<Rightarrow> viewer" where
  "handleColumnFilter lc column s = filterData lc (s\<lparr>columnFilter := column, currentPage := 1\<rparr>)"

definition handleEntriesChange :: "string \<Rightarrow> viewer \<Rightarrow> viewer" where
  "handleEntriesChange v s =
     updatePagination (renderTable
       (s\<lparr>itemsPerPage := (if v = ''-1'' then Fin (- 1) else parseInt v), currentPage := 1\<rparr>))"

definition goToPage :: "int \<Rightarrow> viewer \<Rightarrow> viewer" where
  "goToPage pageNum s = updatePagination (renderTable (s\<lparr>currentPage := pageNum\<rparr>))"

definition previousPage :: "viewer \<Rightarrow> viewer" where
  "previousPage s = (if 1 < currentPage s then goToPage (currentPage s - 1) s else s)"

definition nextPage :: "viewer \<Rightarrow> viewer" where
  "nextPage s =
     (let totalPages = js_ceil (js_div (ofNat (length (filteredRows s))) (itemsPerPage s))
      in if js_lt (ofInt (currentPage s)) totalPages then goToPage (currentPage s + 1) s
         else s)"

text \<open>\<^verbatim>\<open>handleLogout\<close>; \<open>confirmed\<close> is the answer to the confirmation dialog.\<close>

definition handleLogout :: "bool \<Rightarrow> viewer \<Rightarrow> viewer" where
  "handleLogout confirmed s =
     (if confirmed then
        (let (d, s1) = newArray [] s; (f, s2) = newArray [] s1
         in s2\<lparr>data := d, filteredData := f, currentPage := 1, searchTerm := [],
               columnFilter := []\<rparr>)
      else s)"

text \<open>\<^verbatim>\<open>loadData\<close>, given what the fetch returned: \<open>None\<close> when it failed, the text of the file
  otherwise.  An empty parse result is an error, raised after \<open>data\<close> has been assigned.\<close>

definition loadData :: "collation \<Rightarrow> string option \<Rightarrow> viewer \<Rightarrow> viewer" where
  "loadData lc response s =
     (case response of
        None \<Rightarrow> s
      | Some csvText \<Rightarrow>
          (let (d, s1) = newArray (parseCSV csvText) s; s2 = s1\<lparr>data := d\<rparr>
           in if length (dataRows s2) = 0 then s2 else filterData lc s2))"

text \<open>The calls that the page can make on the viewer.\<close>

datatype event =
    HandleSearch string
  | HandleColumnFilter string
  | HandleEntriesChange string
  | HandleSort string
  | GoToPage int
  | PreviousPage
  | NextPage
  | HandleLogout bool
  | LoadData "string option"

fun step :: "collation \<Rightarrow> event \<Rightarrow> viewer \<Rightarrow> viewer" where
  "step lc (HandleSearch term) s = handleSearch lc term s"
| "step lc (HandleColumnFilter column) s = handleColumnFilter lc column s"
| "step lc (HandleEntriesChange v) s = handleEntriesChange v s"
| "step lc (HandleSort column) s = handleSort lc column s"
| "step lc (GoToPage pageNum) s = goToPage pageNum s"
| "step lc PreviousPage s = previousPage s"
| "step lc NextPage s = nextPage s"
| "step lc (HandleLogout confirmed) s = handleLogout confirmed s"
| "step lc (LoadData response) s = loadData lc response s"


text \<open>The state that the constructor leaves: two distinct empty arrays, page 1, 25 items per
  page, nothing rendered yet.\<close>

definition initial :: viewer where
  "initial =
     \<lparr>heap = (\<lambda>a. []), fresh = 2, data = 0, filteredData = 1, currentPage = 1,
      itemsPerPage = Fin 25, sortColumn = None, sortDirection = Asc, searchTerm = [],
      columnFilter = [], tableBody = Rows [], paginationInfo = Showing (Fin 0) (Fin 0) 0,
      prevDisabled = False, nextDisabled = False\<rparr>"

text \<open>Every array that the viewer refers to has been allocated.\<close>

definition allocated :: "viewer \<Rightarrow> bool" where
  "allocated s = (data s < fresh s \<and> filteredData s < fresh s)"

text \<open>
  A collation to run the examples with.  On strings of ASCII lower-case letters and
  numerals without leading zeros it is the order of the root locale: without the option
  \<^verbatim>\<open>numeric\<close> the order of the code units, which puts \<open>a10\<close> before \<open>a2\<close>; with the
  option, each run of digits counts as the number it denotes, which puts \<open>a2\<close> before
  \<open>a10\<close>.
\<close>

fun codeUnitCompare :: "string \<Rightarrow> string \<Rightarrow> int" where
  "codeUnitCompare [] [] = 0"
| "codeUnitCompare [] (b # bs) = - 1"
| "codeUnitCompare (a # as) [] = 1"
| "codeUnitCompare (a # as) (b # bs) =
     (if (of_char a :: nat) < of_char b then - 1
      else if (of_char b :: nat) < of_char a then 1
      else codeUnitCompare as bs)"

function numericCompare :: "string \<Rightarrow> string \<Rightarrow> int" where
  "numericCompare [] [] = 0"
| "numericCompare [] (y # ys) = - 1"
| "numericCompare (x # xs) [] = 1"
| "numericCompare (x # xs) (y # ys) =
     (if isDigit x \<and> isDigit y then
        (let m = digitsValue (takeWhile isDigit (x # xs));
             n = digitsValue (takeWhile isDigit (y # ys))
         in if m < n then - 1
            else if n < m then 1
            else numericCompare (dropWhile isDigit xs) (dropWhile isDigit ys))
      else if (of_char x :: nat) < of_char y then - 1
      else if (of_char y :: nat) < of_char x then 1
      else numericCompare xs ys)"
  by pat_completeness auto
termination
  by (relation "measure (\<lambda>(a, b). length a)") (auto simp: less_Suc_eq_le length_dropWhile_le)

definition exampleCollation :: collation where
  "exampleCollation a b locales numeric =
     (if numeric then numericCompare a b else codeUnitCompare a b)"

section \<open>Collations that are aware of numeric substrings\<close>

text \<open>
  A numeral is a non-empty string of ASCII digits without a leading zero.  A collation is
  aware of numeric substrings when, called with the default locale and the option
  \<^verbatim>\<open>numeric\<close>, it orders two strings that differ in a final numeral only by the numbers
  that the numerals denote, as in \<open>item2\<close> before \<open>item10\<close>.
\<close>

definition isNumeral :: "string \<Rightarrow> bool" where
  "isNumeral ds = (ds \<noteq> [] \<and> list_all isDigit ds \<and> (hd ds \<noteq> CHR ''0'' \<or> length ds = 1))"

definition numericAware :: "collation \<Rightarrow> bool" where
  "numericAware lc =
     (\<forall>p m n. (p = [] \<or> \<not> isDigit (last p)) \<and> isNumeral m \<and> isNumeral n \<longrightarrow>
        (lc (p @ m) (p @ n) None True < 0 \<longleftrightarrow> digitsValue m < digitsValue n)
        \<and> (0 < lc (p @ m) (p @ n) None True \<longleftrightarrow> digitsValue n < digitsValue m))"

section \<open>Writing CSV lines\<close>

text \<open>
  The lines that the properties of the line splitter are stated on.  A field is written
  either plainly, or with one quoted part between two plain parts; in the quoted part
  every double quote is doubled.  Plain text holds neither a double quote nor a comma.
\<close>

datatype csv_field = Plain string | Quoted string string string

definition escapeQuotes :: "string \<Rightarrow> string" where
  "escapeQuotes body = concat (map (\<lambda>c. if c = dquote then [dquote, dquote] else [c]) body)"

fun fieldText :: "csv_field \<Rightarrow> string" where
  "fieldText (Plain p) = p"
| "fieldText (Quoted pre body post) = pre @ [dquote] @ escapeQuotes body @ [dquote] @ post"

fun fieldContent :: "csv_field \<Rightarrow> string" where
  "fieldContent (Plain p) = p"
| "fieldContent (Quoted pre body post) = pre @ body @ post"

definition plainText :: "string \<Rightarrow> bool" where
  "plainText p = (dquote \<notin> set p \<and> comma \<notin> set p)"

fun plainParts :: "csv_field \<Rightarrow> bool" where
  "plainParts (Plain p) = plainText p"
| "plainParts (Quoted pre body post) = (plainText pre \<and> plainText post)"

fun lineText :: "csv_field list \<Rightarrow> string" where
  "lineText [] = []"
| "lineText [f] = fieldText f"
| "lineText (f # g # fs) = fieldText f @ [comma] @ lineText (g # fs)"


section \<open>The derived sequence, and states to run the viewer on\<close>

text \<open>The rows that \<^verbatim>\<open>filterData\<close> stores in the new array, as a function of the rows of
  \<open>data\<close>: the search filter, when there is a search term, then the sort, when there is
  a sort column.\<close>

definition derivedRows :: "collation \<Rightarrow> viewer \<Rightarrow> row list" where
  "derivedRows lc s =
     (let filtered =
            (if searchTerm s \<noteq> []
             then filter (rowMatches (searchTerm s) (columnFilter s)) (dataRows s)
             else dataRows s)
      in case sortColumn s of
           None \<Rightarrow> filtered
         | Some column \<Rightarrow>
             if column = [] then filtered
             else arraySort (compareRows lc column (sortDirection s)) filtered)"

definition exampleCsv :: string where
  "exampleCsv =
     ''name,age'' @ [newline] @ ''Alice,30'' @ [newline] @ ''Bob,25'' @ [newline] @ ''Cara,40''"

definition numbersCsv :: string where
  "numbersCsv = ''v'' @ [newline] @ ''10'' @ [newline] @ ''2'' @ [newline] @ ''1''"

definition quotedLine :: string where
  "quotedLine =
     [dquote] @ ''a,b'' @ [dquote, comma, dquote] @ ''c'' @ [dquote, dquote] @ ''d'' @ [dquote]"

text \<open>The fields of \<open>quotedLine\<close>, and three fields written with blanks around them.\<close>

definition quotedFields :: "csv_field list" where
  "quotedFields = [Quoted [] ''a,b'' [], Quoted [] (''c'' @ [dquote] @ ''d'') []]"

definition paddedFields :: "csv_field list" where
  "paddedFields =
     [Plain '' x '', Quoted '' '' ''a,b'' '' '', Quoted [] (''c'' @ [dquote] @ ''d'') []]"

text \<open>A header of two columns and a row of three fields.\<close>

definition longRowCsv :: string where
  "longRowCsv = ''a,b'' @ [newline] @ ''1,2,3''"

text \<open>A header that names the column \<^verbatim>\<open>__proto__\<close>.\<close>

definition protoCsv :: string where
  "protoCsv = ''__proto__,b'' @ [newline] @ ''x,y''"

text \<open>Two rows that fit the header and one that does not.\<close>

definition mixedCsv :: string where
  "mixedCsv = ''a,b'' @ [newline] @ ''1,2'' @ [newline] @ ''1,2,3'' @ [newline] @ ''3,4''"

text \<open>The quoted line under a header of one column, and under a header of two.\<close>

definition quotedCsv :: string where
  "quotedCsv = ''h'' @ [newline] @ quotedLine"

definition quotedCsv2 :: string where
  "quotedCsv2 = ''h,k'' @ [newline] @ quotedLine"

definition exampleRows :: "row list" where
  "exampleRows =
     [[(''name'', ''Alice''), (''age'', ''30'')],
      [(''name'', ''Bob''), (''age'', ''25'')],
      [(''name'', ''Cara''), (''age'', ''40'')]]"

text \<open>The viewer after the example file has been loaded: three rows on one page of 25.\<close>

definition loaded :: viewer where
  "loaded = loadData exampleCollation (Some exampleCsv) initial"

text \<open>A search that no row matches.\<close>

definition noMatch :: viewer where
  "noMatch = handleSearch exampleCollation ''zzz'' loaded"

text \<open>Two rows per page, on the second and last page.\<close>

definition pageTwo :: viewer where
  "pageTwo = goToPage 2 (handleEntriesChange ''2'' loaded)"

text \<open>All entries on one page.\<close>

definition showAll :: viewer where
  "showAll = handleEntriesChange ''-1'' loaded"

section \<open>Properties of the library functions\<close>

text \<open>The sort returns a permutation of its input, whatever the comparator does.\<close>

lemma mset_insertSorted: "mset (insertSorted cmp x xs) = add_mset x (mset xs)"
  by (induction xs) simp_all

lemma mset_arraySort: "mset (arraySort cmp xs) = mset xs"
  by (induction xs) (simp_all add: arraySort_def mset_insertSorted)

lemma set_arraySort: "set (arraySort cmp xs) = set xs"
  by (metis mset_arraySort set_mset_mset)

lemma set_insertSorted: "set (insertSorted cmp x xs) = insert x (set xs)"
  by (metis mset_insertSorted set_mset_add_mset_insert set_mset_mset)

text \<open>With a comparator that is consistent (transitive, and never positive both ways), no
  element of the result has to come after a later one.\<close>

lemma sorted_insertSorted:
  assumes trans: "\<And>x y z. \<not> js_lt (Fin 0) (cmp x y) \<Longrightarrow> \<not> js_lt (Fin 0) (cmp y z)
                    \<Longrightarrow> \<not> js_lt (Fin 0) (cmp x z)"
    and anti: "\<And>x y. js_lt (Fin 0) (cmp x y) \<Longrightarrow> \<not> js_lt (Fin 0) (cmp y x)"
  shows "sorted_wrt (\<lambda>x y. \<not> js_lt (Fin 0) (cmp x y)) ys
         \<Longrightarrow> sorted_wrt (\<lambda>x y. \<not> js_lt (Fin 0) (cmp x y)) (insertSorted cmp x ys)"
proof (induction ys)
  case Nil
  then show ?case by simp
next
  case (Cons y ys)
  show ?case
  proof (cases "js_lt (Fin 0) (cmp x y)")
    case True
    then have "\<not> js_lt (Fin 0) (cmp y x)" by (rule anti)
    with True Cons show ?thesis by (auto simp: set_insertSorted)
  next
    case False
    have "\<not> js_lt (Fin 0) (cmp x z)" if "z \<in> set ys" for z
      using trans [OF False, of z] Cons.prems that by simp
    with False Cons.prems show ?thesis by simp
  qed
qed

lemma arraySort_sorted:
  assumes "\<And>x y z. \<not> js_lt (Fin 0) (cmp x y) \<Longrightarrow> \<not> js_lt (Fin 0) (cmp y z)
                    \<Longrightarrow> \<not> js_lt (Fin 0) (cmp x z)"
    and "\<And>x y. js_lt (Fin 0) (cmp x y) \<Longrightarrow> \<not> js_lt (Fin 0) (cmp y x)"
  shows "sorted_wrt (\<lambda>x y. \<not> js_lt (Fin 0) (cmp x y)) (arraySort cmp xs)"
proof (induction xs)
  case Nil
  show ?case by (simp add: arraySort_def)
next
  case (Cons x xs)
  from sorted_insertSorted [of cmp "arraySort cmp xs" x, OF assms Cons]
  show ?case by (simp add: arraySort_def)
qed

lemma slice_all: "slice xs (Fin 0) (ofNat (length xs)) = xs"
  by (simp add: slice_def relativeIndex_def ofNat_def)

lemma js_le_Fin: "js_le (Fin a) (Fin b) = (a \<le> b)"
  by (auto simp: js_le_def isNaN_def)

text \<open>\<open>bitlen\<close> is the position of the leading binary digit, so that an integer below
  \<open>2 ^ 53\<close> is a double, and a string of digits with such a value parses to it.\<close>

lemma bitlen_pos: "0 < n \<Longrightarrow> bitlen n = Suc (bitlen (n div 2))"
  by (subst bitlen.simps) simp

lemma bitlen_nonpos: "n \<le> 0 \<Longrightarrow> bitlen n = 0"
  by (subst bitlen.simps) simp

lemma bitlen_bounds: "0 < n \<Longrightarrow> 2 ^ (bitlen n - 1) \<le> n \<and> n < 2 ^ bitlen n"
proof (induction n rule: bitlen.induct)
  case (1 n)
  show ?case
  proof (cases "n div 2 \<le> 0")
    case True
    with "1.prems" have "n = 1" by linarith
    then show ?thesis by (simp add: bitlen_pos bitlen_nonpos)
  next
    case False
    then have h: "0 < n div 2" by simp
    from "1.IH" "1.prems" h
    have ih: "2 ^ (bitlen (n div 2) - 1) \<le> n div 2 \<and> n div 2 < 2 ^ bitlen (n div 2)" by simp
    obtain k where k: "bitlen (n div 2) = Suc k" using h by (auto simp: bitlen_pos)
    from ih k have "2 * 2 ^ k \<le> 2 * (n div 2)" and "2 * (n div 2) + 2 \<le> 2 * (2 * 2 ^ k)"
      by simp_all
    then have "(2::int) ^ Suc k \<le> n" and "n < 2 ^ Suc (Suc k)" by simp_all
    then show ?thesis using "1.prems" k by (simp add: bitlen_pos)
  qed
qed

lemma roundHalfEven_int: "roundHalfEven (of_int m) = m"
  by (simp add: roundHalfEven_def)

lemma pow2_neg: "k \<le> 52 \<Longrightarrow> pow2 (int k - 52) = 1 / 2 ^ (52 - k)"
proof (cases "k = 52")
  case True
  then show ?thesis by (simp add: pow2_def)
next
  case False
  assume "k \<le> 52"
  with False have lt: "k < 52" by simp
  then have "nat (52 - int k) = 52 - k" by arith
  with lt show ?thesis by (simp add: pow2_def)
qed

lemma toDouble_pos_int:
  assumes "0 < n" and "n < 2 ^ 53"
  shows "toDouble (of_int n) = Fin (of_int n)"
proof -
  obtain k where k: "bitlen n = Suc k" using assms(1) by (auto simp: bitlen_pos)
  from bitlen_bounds [OF assms(1)] k have lo: "2 ^ k \<le> n" and hi: "n < 2 ^ Suc k" by simp_all
  from lo assms(2) have "(2::int) ^ k < 2 ^ 53" by linarith
  then have "k < 53" by (rule power_less_imp_less_exp [rotated]) simp
  then have k52: "k \<le> 52" by simp
  have one: "(1::rat) \<le> of_int n" using assms(1) by simp
  have fl: "floorLog2 (of_int n) = int k"
    using one k by (simp add: floorLog2_def)
  have mx: "max (floorLog2 (of_int n)) (- 1022) = int k" by (simp add: fl)
  define m where "m = n * 2 ^ (52 - k)"
  have q: "(of_int n :: rat) / pow2 (int k - 52) = of_int m"
    by (simp add: pow2_neg [OF k52] m_def)
  have v: "of_int (roundHalfEven (of_int m)) * pow2 (int k - 52) = (of_int n :: rat)"
    unfolding roundHalfEven_int by (simp add: pow2_neg [OF k52] m_def)
  have "(of_int n :: rat) < of_int (2 ^ 53)" using assms(2) by (simp only: of_int_less_iff)
  also have "\<dots> \<le> 2 ^ 1024" by simp
  finally have small: "\<not> (2::rat) ^ 1024 \<le> of_int n" by simp
  have nz: "(of_int n :: rat) \<noteq> 0" and ps: "(0::rat) < of_int n" and ab: "\<bar>of_int n :: rat\<bar> = of_int n"
    using assms(1) by simp_all
  show ?thesis
    unfolding toDouble_def Let_def ab mx q v
    using nz ps small by (simp only: if_False if_True)
qed

lemma parseFloat_digits:
  assumes "ds \<noteq> []" and "list_all isDigit ds" and "0 < digitsValue ds" and "digitsValue ds < 2 ^ 53"
  shows "parseFloat ds = Fin (of_int (digitsValue ds))"
proof -
  obtain d r where ds: "ds = d # r" using assms(1) by (cases ds) auto
  have dd: "isDigit d" using assms(2) ds by simp
  have nw: "\<not> isWhiteSpace d" using dd by (auto simp: isDigit_def isWhiteSpace_def)
  have ns: "d \<noteq> CHR ''-''" "d \<noteq> CHR ''+''" "d \<noteq> CHR ''I''" using dd by (auto simp: isDigit_def)
  have tw: "takeWhile isDigit ds = ds" "dropWhile isDigit ds = []"
    using assms(2) by (simp_all add: list_all_iff)
  have "parseFloat ds = toDouble (of_int (digitsValue ds))"
    using nw ns tw unfolding ds
    by (simp add: parseFloat_def takeSign_def trimStart_def exponentPart_def pow10_def)
  then show ?thesis using toDouble_pos_int [OF assms(3,4)] by simp
qed

lemma parseFloat_small: "parseFloat ''1'' = Fin 1" "parseFloat ''2'' = Fin 2" "parseFloat ''10'' = Fin 10"
  "parseFloat ''25'' = Fin 25" "parseFloat ''30'' = Fin 30" "parseFloat ''40'' = Fin 40"
  using parseFloat_digits [of "''1''"] parseFloat_digits [of "''2''"] parseFloat_digits [of "''10''"]
    parseFloat_digits [of "''25''"] parseFloat_digits [of "''30''"] parseFloat_digits [of "''40''"]
  by (simp_all add: isDigit_def digitsValue_def)

lemma parseFloat_NaN_letters: "parseFloat ''abc'' = NaN" "parseFloat ''abd'' = NaN"
  by (simp_all add: parseFloat_def takeSign_def trimStart_def isWhiteSpace_def isDigit_def)

lemma parseFloat_prefix: "parseFloat ''12px'' = Fin 12"
  using toDouble_pos_int [of 12]
  by (simp add: parseFloat_def takeSign_def trimStart_def isWhiteSpace_def isDigit_def
      digitsValue_def exponentPart_def pow10_def)

lemma parseInt_2: "parseInt ''2'' = Fin 2"
  using toDouble_pos_int [of 2]
  by (simp add: parseInt_def takeSign_def trimStart_def isWhiteSpace_def isDigit_def digitsValue_def)

text \<open>
  Every finite result of \<open>toDouble\<close> is a multiple of \<open>2 ^ - 1074\<close>, and a rational that is at
  least \<open>2 ^ - 1074\<close> is not rounded to zero.
\<close>

lemma pow2_power_int: "pow2 e = power_int 2 e"
  by (simp add: pow2_def power_int_def field_simps)

lemma pow2_add: "pow2 (i + j) = pow2 i * pow2 j"
  by (simp add: pow2_power_int power_int_add)

lemma pow2_pos: "0 < pow2 e"
  by (simp add: pow2_def)

lemma pow2_mono: "i \<le> j \<Longrightarrow> pow2 i \<le> pow2 j"
  by (simp add: pow2_power_int power_int_increasing)

lemma pow2_nat: "pow2 (int k) = 2 ^ k"
  by (simp add: pow2_def)

lemma floorLog2_lower:
  assumes "0 < a"
  shows "pow2 (floorLog2 a) \<le> a"
proof (cases "1 \<le> a")
  case True
  then have f: "0 < \<lfloor>a\<rfloor>" by simp
  obtain k where k: "bitlen \<lfloor>a\<rfloor> = Suc k" using f by (auto simp: bitlen_pos)
  from bitlen_bounds [OF f] k have "2 ^ k \<le> \<lfloor>a\<rfloor>" by simp
  then have "(of_int (2 ^ k) :: rat) \<le> of_int \<lfloor>a\<rfloor>" by (simp only: of_int_le_iff)
  also have "\<dots> \<le> a" by simp
  finally have "(2::rat) ^ k \<le> a" by simp
  then show ?thesis using True k by (simp add: floorLog2_def pow2_def)
next
  case False
  then have lt: "a < 1" by simp
  let ?m = "\<lceil>1 / a\<rceil> - 1"
  have "1 < 1 / a" using assms lt by simp
  then have "1 < \<lceil>1 / a\<rceil>" by (simp add: less_ceiling_iff)
  then have m: "0 < ?m" by simp
  from bitlen_bounds [OF m] have "?m < 2 ^ bitlen ?m" by simp
  then have "\<lceil>1 / a\<rceil> \<le> 2 ^ bitlen ?m" by simp
  then have c: "(of_int \<lceil>1 / a\<rceil> :: rat) \<le> of_int (2 ^ bitlen ?m)" by (simp only: of_int_le_iff)
  have "1 / a \<le> of_int \<lceil>1 / a\<rceil>" by (rule le_of_int_ceiling)
  also note c
  also have "(of_int (2 ^ bitlen ?m) :: rat) = 2 ^ bitlen ?m" by simp
  finally have "1 / a \<le> 2 ^ bitlen ?m" .
  then have "1 / 2 ^ bitlen ?m \<le> a"
    using assms by (simp add: field_simps)
  moreover have "pow2 (floorLog2 a) = 1 / 2 ^ bitlen ?m"
    using lt by (simp add: floorLog2_def pow2_def)
  ultimately show ?thesis by simp
qed

lemma roundHalfEven_ge: "1 \<le> q \<Longrightarrow> 1 \<le> roundHalfEven q"
proof -
  assume "1 \<le> q"
  then have "1 \<le> \<lfloor>q\<rfloor>" by simp
  then show ?thesis by (auto simp: roundHalfEven_def Let_def)
qed

lemma toDouble_pos_cases:
  assumes "pow2 (- 1074) \<le> q"
  shows "toDouble q = PosInf \<or> (\<exists>v. toDouble q = Fin v \<and> 0 < v \<and> doubleValue v)"
proof -
  have qpos: "0 < q" using assms pow2_pos [of "- 1074"] by linarith
  define e where "e = max (floorLog2 q) (- 1022)"
  define u where "u = pow2 (e - 52)"
  define n where "n = roundHalfEven (q / u)"
  have upos: "0 < u" by (simp add: u_def pow2_pos)
  have "u \<le> q"
  proof (cases "floorLog2 q \<le> - 1022")
    case True
    then have "u = pow2 (- 1074)" by (simp add: u_def e_def max_def)
    with assms show ?thesis by simp
  next
    case False
    then have "e = floorLog2 q" by (simp add: e_def max_def)
    then have "u \<le> pow2 (floorLog2 q)" unfolding u_def by (intro pow2_mono) simp
    also have "\<dots> \<le> q" by (rule floorLog2_lower [OF qpos])
    finally show ?thesis .
  qed
  then have "1 \<le> q / u" using upos by (simp add: field_simps)
  then have n1: "1 \<le> n" unfolding n_def by (rule roundHalfEven_ge)
  have vpos: "0 < of_int n * u" using n1 upos by simp
  have "- 1074 \<le> e - 52" by (simp add: e_def)
  then obtain j where j: "e - 52 = int j + (- 1074)"
    by (metis diff_add_cancel zero_le_imp_eq_int diff_ge_0_iff_ge)
  have "u = of_int (2 ^ j) * pow2 (- 1074)"
    unfolding u_def j pow2_add by (simp add: pow2_nat)
  then have "of_int n * u = of_int (n * 2 ^ j) * pow2 (- 1074)" by simp
  then have dv: "doubleValue (of_int n * u)" unfolding doubleValue_def by blast
  have td: "toDouble q = (if 2 ^ 1024 \<le> of_int n * u then PosInf else Fin (of_int n * u))"
    using qpos by (simp add: toDouble_def Let_def e_def u_def n_def abs_of_pos)
  show ?thesis using td vpos dv by (cases "(2::rat) ^ 1024 \<le> of_int n * u") auto
qed

lemma toDouble_neg: "q \<noteq> 0 \<Longrightarrow> toDouble (- q) = js_neg (toDouble q)"
  by (auto simp: toDouble_def Let_def)

lemma doubleValue_neg: "doubleValue v \<Longrightarrow> doubleValue (- v)"
  unfolding doubleValue_def
proof -
  assume "\<exists>k::int. v = of_int k * pow2 (- 1074)"
  then obtain k :: int where "v = of_int k * pow2 (- 1074)" by blast
  then have "- v = of_int (- k) * pow2 (- 1074)" by simp
  then show "\<exists>k::int. - v = of_int k * pow2 (- 1074)" by blast
qed

lemma doubleValue_diff: "doubleValue x \<Longrightarrow> doubleValue y \<Longrightarrow> doubleValue (x - y)"
  unfolding doubleValue_def
proof -
  assume "\<exists>k::int. x = of_int k * pow2 (- 1074)" and "\<exists>k::int. y = of_int k * pow2 (- 1074)"
  then obtain k l :: int where "x = of_int k * pow2 (- 1074)" "y = of_int l * pow2 (- 1074)" by blast
  then have "x - y = of_int (k - l) * pow2 (- 1074)" by (simp add: algebra_simps)
  then show "\<exists>k::int. x - y = of_int k * pow2 (- 1074)" by blast
qed

lemma doubleValue_ge: "doubleValue v \<Longrightarrow> 0 < v \<Longrightarrow> pow2 (- 1074) \<le> v"
  unfolding doubleValue_def
proof -
  assume "\<exists>k::int. v = of_int k * pow2 (- 1074)" and pos: "0 < v"
  then obtain k :: int where k: "v = of_int k * pow2 (- 1074)" by blast
  with pos have "0 < (of_int k :: rat)" using pow2_pos [of "- 1074"]
    by (simp add: zero_less_mult_iff)
  then have "1 \<le> k" by simp
  then have "(1::rat) \<le> of_int k" by simp
  then have "1 * pow2 (- 1074) \<le> of_int k * pow2 (- 1074)"
    using pow2_pos [of "- 1074"] by (intro mult_right_mono) simp_all
  with k show "pow2 (- 1074) \<le> v" by simp
qed

lemma doubleValue_scaled: "doubleValue (of_int n * pow2 (int j))"
proof -
  have "pow2 (int j) = pow2 (int (j + 1074) + (- 1074))" by simp
  also have "\<dots> = pow2 (int (j + 1074)) * pow2 (- 1074)" by (rule pow2_add)
  also have "\<dots> = of_int (2 ^ (j + 1074)) * pow2 (- 1074)"
    by (simp only: pow2_nat of_int_power of_int_numeral)
  finally have "of_int n * pow2 (int j) = of_int (n * 2 ^ (j + 1074)) * pow2 (- 1074)"
    by (simp only: of_int_mult mult.assoc)
  then show ?thesis unfolding doubleValue_def by blast
qed

lemma doubleValue_int: "doubleValue (of_int n)"
  using doubleValue_scaled [of n 0] by (simp add: pow2_def)

lemma toDouble_pos_form:
  assumes "0 < q"
  shows "\<exists>w. doubleValue w \<and> 0 \<le> w \<and> toDouble q = (if 2 ^ 1024 \<le> w then PosInf else Fin w)"
proof -
  define e where "e = max (floorLog2 q) (- 1022)"
  define u where "u = pow2 (e - 52)"
  define n where "n = roundHalfEven (q / u)"
  have upos: "0 < u" by (simp add: u_def pow2_pos)
  have "0 \<le> q / u" using assms upos by simp
  then have "0 \<le> \<lfloor>q / u\<rfloor>" by simp
  then have n0: "0 \<le> n" by (auto simp: n_def roundHalfEven_def Let_def)
  have "- 1074 \<le> e - 52" by (simp add: e_def)
  then obtain j where j: "e - 52 = int j + (- 1074)"
    by (metis diff_add_cancel zero_le_imp_eq_int diff_ge_0_iff_ge)
  have "u = of_int (2 ^ j) * pow2 (- 1074)"
    unfolding u_def j pow2_add by (simp add: pow2_nat)
  then have "of_int n * u = of_int (n * 2 ^ j) * pow2 (- 1074)" by simp
  then have dv: "doubleValue (of_int n * u)" unfolding doubleValue_def by blast
  have nn: "0 \<le> of_int n * u" using n0 upos by simp
  have td: "toDouble q = (if 2 ^ 1024 \<le> of_int n * u then PosInf else Fin (of_int n * u))"
    using assms by (simp add: toDouble_def Let_def e_def u_def n_def abs_of_pos)
  from dv nn td show ?thesis by blast
qed

lemma doubleValue_0: "doubleValue 0"
  using doubleValue_int [of 0] by simp

lemma toDouble_double:
  assumes "toDouble q = Fin v"
  shows "doubleValue v"
proof -
  consider "q = 0" | "0 < q" | "q < 0" by linarith
  then show ?thesis
  proof cases
    case 1
    with assms show ?thesis by (simp add: toDouble_def doubleValue_0)
  next
    case 2
    from toDouble_pos_form [OF 2] obtain w where
      "doubleValue w" "toDouble q = (if 2 ^ 1024 \<le> w then PosInf else Fin w)" by blast
    with assms show ?thesis by (auto split: if_splits)
  next
    case 3
    then have p: "0 < - q" by simp
    from toDouble_pos_form [OF p] obtain w where
      w: "doubleValue w" "toDouble (- q) = (if 2 ^ 1024 \<le> w then PosInf else Fin w)" by blast
    have "toDouble q = js_neg (toDouble (- q))"
      using toDouble_neg [of "- q"] 3 by simp
    with assms w have "v = - w" by (auto split: if_splits)
    with w(1) show ?thesis by (simp add: doubleValue_neg)
  qed
qed

lemma parseFloat_double: "parseFloat s = Fin v \<Longrightarrow> doubleValue v"
  by (auto simp: parseFloat_def Let_def split: prod.splits if_splits dest: toDouble_double)

lemma parseInt_double: "parseInt s = Fin v \<Longrightarrow> doubleValue v"
  by (auto simp: parseInt_def Let_def split: prod.splits if_splits option.splits dest: toDouble_double)

text \<open>The sign of a rounded difference of doubles is the sign of the exact difference.\<close>

lemma toDouble_sign:
  assumes "doubleValue d"
  shows "(js_lt (Fin 0) (toDouble d) \<longleftrightarrow> 0 < d) \<and> (js_lt (toDouble d) (Fin 0) \<longleftrightarrow> d < 0)"
proof -
  consider "d = 0" | "0 < d" | "d < 0" by linarith
  then show ?thesis
  proof cases
    case 1
    then show ?thesis by (simp add: toDouble_def)
  next
    case 2
    from toDouble_pos_cases [OF doubleValue_ge [OF assms 2]] 2 show ?thesis by auto
  next
    case 3
    then have p: "0 < - d" by simp
    have td: "toDouble d = js_neg (toDouble (- d))"
      using toDouble_neg [of "- d"] 3 by simp
    from toDouble_pos_cases [OF doubleValue_ge [OF doubleValue_neg [OF assms] p]] 3 td
    show ?thesis by auto
  qed
qed

lemma js_sub_sign:
  assumes "doubleValue x" and "doubleValue y"
  shows "(js_lt (js_sub (Fin x) (Fin y)) (Fin 0) \<longleftrightarrow> x < y)
       \<and> (js_lt (Fin 0) (js_sub (Fin x) (Fin y)) \<longleftrightarrow> y < x)"
  using toDouble_sign [OF doubleValue_diff [OF assms]] by (simp add: js_sub_def)

text \<open>The same for any two numbers that are not NaN.\<close>

lemma js_sub_order:
  assumes "\<not> isNaN a" and "\<not> isNaN b"
    and "\<And>x. a = Fin x \<Longrightarrow> doubleValue x" and "\<And>y. b = Fin y \<Longrightarrow> doubleValue y"
  shows "(js_lt (js_sub a b) (Fin 0) \<longleftrightarrow> js_lt a b) \<and> (js_lt (Fin 0) (js_sub a b) \<longleftrightarrow> js_lt b a)"
proof (cases a)
  case (Fin x)
  show ?thesis
  proof (cases b)
    case (Fin y)
    with \<open>a = Fin x\<close> assms js_sub_sign [of x y] show ?thesis by simp
  qed (use \<open>a = Fin x\<close> assms in \<open>simp_all add: js_sub_def isNaN_def\<close>)
qed (use assms in \<open>cases b; simp add: js_sub_def isNaN_def\<close>)+

lemma js_sub_int:
  "js_lt (Fin 0) (js_sub (Fin (of_int x)) (Fin (of_int y))) = (y < x)"
  "js_lt (js_sub (Fin (of_int x)) (Fin (of_int y))) (Fin 0) = (x < y)"
  using js_sub_sign [OF doubleValue_int doubleValue_int, of x y] by simp_all

lemma js_lt_ofInt: "js_lt (ofInt i) (Fin 0) = (i < 0)" "js_lt (Fin 0) (ofInt i) = (0 < i)"
  by (simp_all add: ofInt_def)

text \<open>The collation of the examples is aware of numeric substrings.\<close>

lemma dropWhile_last:
  "xs \<noteq> [] \<Longrightarrow> \<not> P (last xs) \<Longrightarrow> dropWhile P xs \<noteq> [] \<and> last (dropWhile P xs) = last xs"
  by (induction xs) (auto split: if_splits)

lemma numericCompare_digits:
  assumes "m \<noteq> []" "n \<noteq> []" "list_all isDigit m" "list_all isDigit n"
  shows "numericCompare m n =
           (if digitsValue m < digitsValue n then - 1
            else if digitsValue n < digitsValue m then 1 else 0)"
proof -
  obtain x xs y ys where mn: "m = x # xs" "n = y # ys"
    using assms(1,2) by (cases m; cases n) auto
  have tw: "takeWhile isDigit xs = xs" "takeWhile isDigit ys = ys"
    using assms(3,4) mn by (simp_all add: list_all_iff)
  have dw: "dropWhile isDigit xs = []" "dropWhile isDigit ys = []"
    using assms(3,4) mn by (simp_all add: list_all_iff)
  have hd: "isDigit x" "isDigit y" using assms(3,4) mn by simp_all
  show ?thesis
    unfolding mn by (simp add: Let_def tw dw hd)
qed

lemma numericCompare_suffix:
  assumes "m \<noteq> []" "n \<noteq> []" "list_all isDigit m" "list_all isDigit n"
  shows "p = [] \<or> \<not> isDigit (last p) \<Longrightarrow>
         numericCompare (p @ m) (p @ n) =
           (if digitsValue m < digitsValue n then - 1
            else if digitsValue n < digitsValue m then 1 else 0)"
proof (induction "length p" arbitrary: p rule: less_induct)
  case less
  show ?case
  proof (cases p)
    case Nil
    then show ?thesis using numericCompare_digits [OF assms] by simp
  next
    case (Cons c p')
    have tail: "p' = [] \<or> \<not> isDigit (last p')" using less.prems Cons by (auto split: if_splits)
    show ?thesis
    proof (cases "isDigit c")
      case False
      have "numericCompare (p @ m) (p @ n) = numericCompare (p' @ m) (p' @ n)"
        using False Cons by simp
      also have "\<dots> = (if digitsValue m < digitsValue n then - 1
            else if digitsValue n < digitsValue m then 1 else 0)"
        using tail Cons by (intro less.hyps) simp_all
      finally show ?thesis .
    next
      case True
      with less.prems Cons have ne: "p' \<noteq> []" by auto
      with tail have nd: "\<not> isDigit (last p')" by simp
      have mem: "last p' \<in> set p'" using ne by simp
      let ?q = "dropWhile isDigit p'"
      have tw: "takeWhile isDigit (p' @ m) = takeWhile isDigit p'"
          "takeWhile isDigit (p' @ n) = takeWhile isDigit p'"
        using mem nd by simp_all
      have dw: "dropWhile isDigit (p' @ m) = ?q @ m" "dropWhile isDigit (p' @ n) = ?q @ n"
        using mem nd by simp_all
      have "numericCompare (p @ m) (p @ n) = numericCompare (?q @ m) (?q @ n)"
        using True Cons tw dw by (simp add: Let_def)
      also have "\<dots> = (if digitsValue m < digitsValue n then - 1
            else if digitsValue n < digitsValue m then 1 else 0)"
      proof (rule less.hyps)
        have "length ?q \<le> length p'" by (rule length_dropWhile_le)
        then show "length ?q < length p" using Cons by simp
        from dropWhile_last [of p' isDigit, OF ne nd] have "last ?q = last p'" by blast
        with nd have "\<not> isDigit (last ?q)" by (simp only: not_False_eq_True)
        then show "?q = [] \<or> \<not> isDigit (last ?q)" by (rule disjI2)
      qed
      finally show ?thesis .
    qed
  qed
qed

lemma numericAware_example: "numericAware exampleCollation"
  unfolding numericAware_def
proof (intro allI impI)
  fix p m n
  assume h: "(p = [] \<or> \<not> isDigit (last p)) \<and> isNumeral m \<and> isNumeral n"
  then have "m \<noteq> []" "n \<noteq> []" "list_all isDigit m" "list_all isDigit n"
    by (simp_all add: isNumeral_def)
  from numericCompare_suffix [OF this] h
  show "(exampleCollation (p @ m) (p @ n) None True < 0) = (digitsValue m < digitsValue n) \<and>
        (0 < exampleCollation (p @ m) (p @ n) None True) = (digitsValue n < digitsValue m)"
    by (simp add: exampleCollation_def)
qed

section \<open>Properties of the parser\<close>

text \<open>The loop over the data lines keeps, in order, the lines with as many fields as the
  header, and every record it builds has the header's columns as keys.\<close>

lemma parseCSV_loop_eq:
  "parseCSV_loop H ls acc =
     acc @ map (\<lambda>l. makeRow H 0 (parseCSVLine l) [])
              (filter (\<lambda>l. length (parseCSVLine l) = length H) ls)"
  by (induction ls arbitrary: acc) (simp_all add: Let_def)

lemma str_split_nonempty: "str_split sep cur s \<noteq> []"
  by (induction s arbitrary: cur) simp_all

lemma makeRow_keys:
  "fst ` set (makeRow hs i vs row) = (set hs - {''__proto__''}) \<union> fst ` set row"
  by (induction hs arbitrary: i row) (auto simp: dom_update)

lemma parseCSV_eq: "parseCSV csvText =
     map (\<lambda>l. makeRow (parseCSVLine (hd (csvLines csvText))) 0 (parseCSVLine l) [])
       (filter (\<lambda>l. length (parseCSVLine l) = length (parseCSVLine (hd (csvLines csvText))))
          (tl (csvLines csvText)))"
proof (cases "length (csvLines csvText) < 2")
  case True
  have "csvLines csvText \<noteq> []" by (simp add: csvLines_def str_split_nonempty)
  with True have "tl (csvLines csvText) = []"
    by (cases "csvLines csvText") auto
  with True show ?thesis by (simp add: parseCSV_def)
next
  case False
  then show ?thesis by (simp add: parseCSV_def parseCSV_loop_eq Let_def)
qed

text \<open>The line splitter on plain text, on a quoted part, on a field and on a line.\<close>

lemma parseCSVLine_loop_plain:
  "plainText p \<Longrightarrow>
   parseCSVLine_loop (p @ rest) result current False
     = parseCSVLine_loop rest result (current @ p) False"
  by (induction p arbitrary: current) (auto simp: plainText_def)

lemma parseCSVLine_loop_quoted:
  "rest = [] \<or> hd rest \<noteq> dquote \<Longrightarrow>
   parseCSVLine_loop (escapeQuotes body @ dquote # rest) result current True
     = parseCSVLine_loop rest result (current @ body) False"
proof (induction body arbitrary: current)
  case Nil
  then show ?case by (cases rest) (auto simp: escapeQuotes_def)
next
  case (Cons c body)
  show ?case
  proof (cases "c = dquote")
    case True
    then show ?thesis using Cons.IH [OF Cons.prems, of "current @ [dquote]"]
      by (simp add: escapeQuotes_def)
  next
    case False
    then show ?thesis using Cons.IH [OF Cons.prems, of "current @ [c]"]
      by (simp add: escapeQuotes_def)
  qed
qed

lemma parseCSVLine_loop_field:
  assumes "plainParts f" and "rest = [] \<or> hd rest = comma"
  shows "parseCSVLine_loop (fieldText f @ rest) result current False
     = parseCSVLine_loop rest result (current @ fieldContent f) False"
proof (cases f)
  case (Plain p)
  with assms show ?thesis by (simp add: parseCSVLine_loop_plain)
next
  case (Quoted pre body post)
  with assms have pre: "plainText pre" and post: "plainText post" by simp_all
  have nq: "post @ rest = [] \<or> hd (post @ rest) \<noteq> dquote"
    using post assms(2) by (cases post) (auto simp: plainText_def dquote_def comma_def)
  have "parseCSVLine_loop (fieldText f @ rest) result current False
      = parseCSVLine_loop (dquote # escapeQuotes body @ dquote # (post @ rest)) result (current @ pre) False"
    using parseCSVLine_loop_plain [OF pre, of "dquote # escapeQuotes body @ dquote # (post @ rest)" result current]
    by (simp add: Quoted)
  also have "\<dots> = parseCSVLine_loop (escapeQuotes body @ dquote # (post @ rest)) result (current @ pre) True"
    by (cases "escapeQuotes body @ dquote # (post @ rest)") simp_all
  also have "\<dots> = parseCSVLine_loop (post @ rest) result ((current @ pre) @ body) False"
    by (rule parseCSVLine_loop_quoted [OF nq])
  also have "\<dots> = parseCSVLine_loop rest result (((current @ pre) @ body) @ post) False"
    by (rule parseCSVLine_loop_plain [OF post])
  finally show ?thesis by (simp add: Quoted)
qed

lemma parseCSVLine_loop_line:
  "fs \<noteq> [] \<Longrightarrow> list_all plainParts fs \<Longrightarrow>
   parseCSVLine_loop (lineText fs) result [] False = result @ map (\<lambda>f. trim (fieldContent f)) fs"
proof (induction fs arbitrary: result rule: lineText.induct)
  case 1
  then show ?case by simp
next
  case (2 f)
  then show ?case using parseCSVLine_loop_field [of f "[]" result "[]"] by simp
next
  case (3 f g fs)
  have "parseCSVLine_loop (fieldText f @ comma # lineText (g # fs)) result [] False
      = parseCSVLine_loop (comma # lineText (g # fs)) result ([] @ fieldContent f) False"
    using 3(3) by (intro parseCSVLine_loop_field) simp_all
  also have "\<dots> = parseCSVLine_loop (lineText (g # fs)) (result @ [trim (fieldContent f)]) [] False"
    by (simp add: comma_def dquote_def)
  also have "\<dots> = (result @ [trim (fieldContent f)]) @ map (\<lambda>f. trim (fieldContent f)) (g # fs)"
    using 3(3) by (intro 3(1)) simp_all
  finally show ?case by simp
qed

section \<open>What the handlers leave unchanged\<close>

lemma renderTable_fields:
  "heap (renderTable s) = heap s" "fresh (renderTable s) = fresh s" "data (renderTable s) = data s"
  "filteredData (renderTable s) = filteredData s" "currentPage (renderTable s) = currentPage s"
  "itemsPerPage (renderTable s) = itemsPerPage s" "sortColumn (renderTable s) = sortColumn s"
  "sortDirection (renderTable s) = sortDirection s" "searchTerm (renderTable s) = searchTerm s"
  "columnFilter (renderTable s) = columnFilter s"
  by (simp_all add: renderTable_def Let_def)

lemma updatePagination_fields:
  "heap (updatePagination s) = heap s" "fresh (updatePagination s) = fresh s" "data (updatePagination s) = data s"
  "filteredData (updatePagination s) = filteredData s" "currentPage (updatePagination s) = currentPage s"
  "itemsPerPage (updatePagination s) = itemsPerPage s" "sortColumn (updatePagination s) = sortColumn s"
  "sortDirection (updatePagination s) = sortDirection s" "searchTerm (updatePagination s) = searchTerm s"
  "columnFilter (updatePagination s) = columnFilter s" "tableBody (updatePagination s) = tableBody s"
  by (simp_all add: updatePagination_def)

lemma filteredRows_render [simp]:
  "filteredRows (renderTable s) = filteredRows s" "filteredRows (updatePagination s) = filteredRows s"
  by (simp_all add: filteredRows_def renderTable_fields updatePagination_fields)

lemma filterData_fields:
  "data (filterData lc s) = data s" "currentPage (filterData lc s) = currentPage s"
  "itemsPerPage (filterData lc s) = itemsPerPage s" "sortColumn (filterData lc s) = sortColumn s"
  "sortDirection (filterData lc s) = sortDirection s" "searchTerm (filterData lc s) = searchTerm s"
  "columnFilter (filterData lc s) = columnFilter s"
  by (simp_all add: filterData_def newArray_def Let_def updatePagination_fields renderTable_fields
        split: option.split)

lemma filterData_heap_old: "a < fresh s \<Longrightarrow> heap (filterData lc s) a = heap s a"
  by (simp add: filterData_def newArray_def Let_def updatePagination_fields renderTable_fields
        split: option.split)

lemma filterData_new: "fresh s \<le> filteredData (filterData lc s) \<and> filteredData (filterData lc s) < fresh (filterData lc s)"
  by (simp add: filterData_def newArray_def Let_def updatePagination_fields renderTable_fields
        split: option.split)

lemma filterData_fresh: "fresh s < fresh (filterData lc s)"
  by (simp add: filterData_def newArray_def Let_def updatePagination_fields renderTable_fields
        split: option.split)

lemma filterData_rows: "filteredRows (filterData lc s) = derivedRows lc s"
  by (simp add: filterData_def newArray_def Let_def updatePagination_fields renderTable_fields
        filteredRows_def derivedRows_def dataRows_def split: option.split)

lemma mset_derivedRows:
  "mset (derivedRows lc s) =
     (if searchTerm s \<noteq> [] then filter_mset (rowMatches (searchTerm s) (columnFilter s)) (mset (dataRows s))
      else mset (dataRows s))"
  by (simp add: derivedRows_def Let_def mset_arraySort split: option.split)

lemma goToPage_fields:
  "heap (goToPage p s) = heap s" "fresh (goToPage p s) = fresh s" "data (goToPage p s) = data s"
  "filteredData (goToPage p s) = filteredData s" "currentPage (goToPage p s) = p"
  "itemsPerPage (goToPage p s) = itemsPerPage s"
  by (simp_all add: goToPage_def updatePagination_fields renderTable_fields)

lemma handleEntriesChange_fields:
  "heap (handleEntriesChange v s) = heap s" "fresh (handleEntriesChange v s) = fresh s"
  "data (handleEntriesChange v s) = data s"
  "filteredData (handleEntriesChange v s) = filteredData s" "currentPage (handleEntriesChange v s) = 1"
  "itemsPerPage (handleEntriesChange v s) = (if v = ''-1'' then Fin (- 1) else parseInt v)"
  by (simp_all add: handleEntriesChange_def updatePagination_fields renderTable_fields)

lemma handleLogout_page: "currentPage (handleLogout c s) = (if c then 1 else currentPage s)"
  by (simp add: handleLogout_def newArray_def Let_def)

lemma loadData_page: "currentPage (loadData lc r s) = currentPage s"
  by (simp add: loadData_def newArray_def Let_def filterData_fields split: option.split)

lemma loadData_fields:
  "currentPage (loadData lc r s) = currentPage s" "itemsPerPage (loadData lc r s) = itemsPerPage s"
  "sortColumn (loadData lc r s) = sortColumn s" "sortDirection (loadData lc r s) = sortDirection s"
  "searchTerm (loadData lc r s) = searchTerm s" "columnFilter (loadData lc r s) = columnFilter s"
  by (simp_all add: loadData_def newArray_def Let_def filterData_fields split: option.split)

lemma loadData_rows:
  "parseCSV t \<noteq> [] \<Longrightarrow> dataRows (loadData lc (Some t) s) = parseCSV t"
  by (simp add: loadData_def newArray_def Let_def dataRows_def filterData_fields filterData_heap_old)

lemma loadData_filtered:
  "parseCSV t \<noteq> [] \<Longrightarrow>
   filteredRows (loadData lc (Some t) s) =
     derivedRows lc (s\<lparr>heap := (heap s)(fresh s := parseCSV t), fresh := Suc (fresh s), data := fresh s\<rparr>)"
  by (simp add: loadData_def newArray_def Let_def dataRows_def filterData_rows)

text \<open>The callback of the filter raises no exception, and on the rows that the parser builds
  it is the search in the cells.\<close>

lemma matchValue_total: "\<exists>found. matchValue term v = Inr found"
  by (cases v) (auto simp: matchValue_def)

lemma arraySome_total:
  "(\<And>x. \<exists>found. f x = Inr found) \<Longrightarrow> \<exists>found. arraySome f xs = Inr found"
proof (induction xs)
  case Nil
  show ?case by auto
next
  case (Cons x xs)
  from Cons.prems obtain found where "f x = Inr found" by blast
  with Cons show ?case by (cases found) auto
qed

lemma filterCallback_total: "\<exists>found. filterCallback term column row = Inr found"
  by (simp add: filterCallback_def matchValue_total arraySome_total)

lemma filterCallback_missing:
  "column \<noteq> [] \<Longrightarrow> getProperty row column = Undefined
   \<Longrightarrow> filterCallback term column row = Inr False"
  by (simp add: filterCallback_def matchValue_def)

lemma rowMatches_missing:
  "column \<noteq> [] \<Longrightarrow> getProperty row column = Undefined \<Longrightarrow> \<not> rowMatches term column row"
  by (simp add: rowMatches_def filterCallback_missing)

lemma arraySome_Str:
  "arraySome (matchValue term) (map (\<lambda>kv. Str (snd kv)) row) =
     Inr (list_ex (\<lambda>v. str_includes (toLowerCase v) term) (map snd row))"
  by (induction row) (simp_all add: matchValue_def)

lemma rowMatches_any_column:
  "rowMatches term [] row = list_ex (\<lambda>v. str_includes (toLowerCase v) term) (map snd row)"
  by (simp add: rowMatches_def filterCallback_def arraySome_Str)

lemma rowMatches_own:
  "column \<noteq> [] \<Longrightarrow> map_of row column = Some v
   \<Longrightarrow> rowMatches term column row = str_includes (toLowerCase v) term"
  by (simp add: rowMatches_def filterCallback_def getProperty_def matchValue_def)

text \<open>A column filter that names a member of \<^verbatim>\<open>Object.prototype\<close> reads the inherited value:
  the text of the built-in \<^verbatim>\<open>toString\<close> holds the word \<open>native\<close>.\<close>

lemma rowMatches_inherited: "rowMatches ''native'' ''toString'' [(''name'', ''Alice'')]"
  by code_simp

lemma cellString_own: "cellString ((column, v) # row) column = v"
  by (simp add: cellString_def getProperty_def)

text \<open>Every call keeps the arrays of the viewer allocated.\<close>

lemma allocated_filterData: "data s < fresh s \<Longrightarrow> allocated (filterData lc s)"
  using filterData_fresh [of s lc] filterData_new [of s lc]
  by (simp add: allocated_def filterData_fields)

lemma allocated_loadData:
  assumes "allocated s"
  shows "allocated (loadData lc r s)"
proof (cases r)
  case None
  with assms show ?thesis by (simp add: loadData_def)
next
  case (Some t)
  let ?s2 = "s\<lparr>heap := (heap s)(fresh s := parseCSV t), fresh := Suc (fresh s), data := fresh s\<rparr>"
  have a2: "allocated ?s2" using assms by (simp add: allocated_def)
  then have "allocated (filterData lc ?s2)" by (intro allocated_filterData) (simp add: allocated_def)
  with a2 show ?thesis by (simp add: Some loadData_def newArray_def Let_def)
qed

lemma allocated_step:
  assumes "allocated s"
  shows "allocated (step lc e s)"
proof -
  from assms have d: "data s < fresh s" and f: "filteredData s < fresh s"
    by (simp_all add: allocated_def)
  show ?thesis
  proof (cases e)
    case (HandleSearch t)
    then show ?thesis using d by (simp add: handleSearch_def allocated_filterData)
  next
    case (HandleColumnFilter c)
    then show ?thesis using d by (simp add: handleColumnFilter_def allocated_filterData)
  next
    case (HandleEntriesChange v)
    then show ?thesis using d f by (simp add: allocated_def handleEntriesChange_fields)
  next
    case (HandleSort c)
    then show ?thesis using d by (simp add: handleSort_def allocated_filterData)
  next
    case (GoToPage p)
    then show ?thesis using d f by (simp add: allocated_def goToPage_fields)
  next
    case PreviousPage
    then show ?thesis using d f assms by (simp add: allocated_def previousPage_def goToPage_fields)
  next
    case NextPage
    then show ?thesis using d f assms by (simp add: allocated_def nextPage_def Let_def goToPage_fields)
  next
    case (HandleLogout c)
    then show ?thesis using d f by (simp add: handleLogout_def newArray_def Let_def allocated_def)
  next
    case (LoadData r)
    then show ?thesis using assms by (simp add: allocated_loadData)
  qed
qed

section \<open>The example states\<close>

lemma parse_example: "parseCSV exampleCsv = exampleRows"
  by code_simp

lemma exampleRows_ne: "exampleRows \<noteq> []"
  by (simp add: exampleRows_def)

lemma parse_numbers: "parseCSV numbersCsv = [[(''v'', ''10'')], [(''v'', ''2'')], [(''v'', ''1'')]]"
  by code_simp

lemma initial_fields:
  "currentPage initial = 1" "itemsPerPage initial = Fin 25" "sortColumn initial = None"
  "sortDirection initial = Asc" "searchTerm initial = []" "columnFilter initial = []"
  "data initial = 0" "fresh initial = 2" "filteredData initial = 1"
  by (simp_all add: initial_def)

lemma allocated_initial: "allocated initial"
  by (simp add: allocated_def initial_def)

lemma loaded_fields:
  "currentPage loaded = 1" "itemsPerPage loaded = Fin 25" "sortColumn loaded = None"
  "sortDirection loaded = Asc" "searchTerm loaded = []" "columnFilter loaded = []"
  by (simp_all add: loaded_def loadData_fields initial_def)

lemma loaded_data: "heap loaded (data loaded) = exampleRows"
  using loadData_rows [of exampleCsv exampleCollation initial]
  by (simp add: loaded_def parse_example exampleRows_ne dataRows_def)

lemma loaded_filtered: "heap loaded (filteredData loaded) = exampleRows"
  using loadData_filtered [of exampleCsv exampleCollation initial]
  by (simp add: loaded_def parse_example exampleRows_ne filteredRows_def derivedRows_def dataRows_def initial_def)

lemma allocated_loaded: "allocated loaded"
  unfolding loaded_def by (rule allocated_loadData [OF allocated_initial])

lemma noMatch_rows: "filteredRows noMatch = []"
proof -
  have "filter (rowMatches ''zzz'' []) exampleRows = []" by code_simp
  moreover have "toLowerCase ''zzz'' = ''zzz''" by code_simp
  ultimately show ?thesis
    by (simp add: noMatch_def handleSearch_def filterData_rows derivedRows_def dataRows_def
        loaded_fields loaded_data)
qed

lemma noMatch_fields: "itemsPerPage noMatch = Fin 25" "currentPage noMatch = 1"
  by (simp_all add: noMatch_def handleSearch_def filterData_fields loaded_fields)

lemma pageTwo_fields:
  "currentPage pageTwo = 2" "itemsPerPage pageTwo = Fin 2" "filteredRows pageTwo = exampleRows"
  by (simp_all add: pageTwo_def goToPage_fields handleEntriesChange_fields parseInt_2
      filteredRows_def loaded_filtered)

lemma showAll_fields: "itemsPerPage showAll = Fin (- 1)" "filteredRows showAll = exampleRows"
  by (simp_all add: showAll_def handleEntriesChange_fields filteredRows_def loaded_filtered)

lemma sorted_example:
  "arraySort (compareRows lc ''age'' Asc) exampleRows =
     [[(''name'', ''Bob''), (''age'', ''25'')], [(''name'', ''Alice''), (''age'', ''30'')],
      [(''name'', ''Cara''), (''age'', ''40'')]]"
proof -
  have c: "cellString [(''name'', n), (''age'', v)] ''age'' = v" for n v
    by (simp add: cellString_def getProperty_def)
  note s = js_sub_int(1) [of 25 40, simplified] js_sub_int(1) [of 30 25, simplified]
    js_sub_int(1) [of 30 40, simplified]
  show ?thesis
    by (simp add: arraySort_def compareRows_def c parseFloat_small isNaN_def exampleRows_def s)
qed

lemma age_sorted_state:
  "handleSort lc ''age'' loaded = filterData lc (loaded\<lparr>sortColumn := Some ''age'', sortDirection := Asc\<rparr>)"
  by (simp add: handleSort_def loaded_fields)

lemma age_sorted_rows:
  "filteredRows (handleSort lc ''age'' loaded) =
     [[(''name'', ''Bob''), (''age'', ''25'')], [(''name'', ''Alice''), (''age'', ''30'')],
      [(''name'', ''Cara''), (''age'', ''40'')]]"
  by (simp add: age_sorted_state filterData_rows derivedRows_def dataRows_def loaded_fields
      loaded_data sorted_example)

section \<open>The claims\<close>

subsection \<open>C1: the number of pages\<close>

text \<open>
  C1 as the specification states it: with a finite positive \<open>itemsPerPage\<close> the page count
  is \<open>ceil(totalItems / itemsPerPage)\<close> and at least 1 even for an empty dataset, for
  which \<open>totalPages = 1\<close>.  The viewer computes the quotient's ceiling and nothing else:
  after a search that matches no row, with 25 items per page, the page count is 0.
\<close>

theorem totalPages_empty_counterexample:
  "itemsPerPage noMatch = Fin 25 \<and> filteredRows noMatch = [] \<and> totalPages noMatch = Fin 0
   \<and> \<not> js_le (Fin 1) (totalPages noMatch)"
  by (simp add: noMatch_fields noMatch_rows totalPages_def ofNat_def js_le_def isNaN_def)

text \<open>
  C1, as amended: with a finite positive \<open>itemsPerPage\<close> the page count is
  \<open>ceil(totalItems / itemsPerPage)\<close>; it is at least 1 exactly when the dataset is not
  empty.  For an empty dataset the page count is 0, \<open>startItem\<close> and \<open>endItem\<close> are 0 (the
  latter for a page number that is not negative), and the visible page is empty.
\<close>

theorem totalPages_ceiling:
  assumes "itemsPerPage s = Fin p" and "0 < p"
  shows "totalPages s = Fin (of_int \<lceil>of_nat (length (filteredRows s)) / p\<rceil>)
       \<and> (js_le (Fin 1) (totalPages s) \<longleftrightarrow> filteredRows s \<noteq> [])
       \<and> (filteredRows s = [] \<longrightarrow>
            totalPages s = Fin 0 \<and> startItem s = Fin 0
            \<and> (0 \<le> currentPage s \<longrightarrow> endItem s = Fin 0)
            \<and> visibleRows (renderTable s) = [])"
proof -
  let ?n = "length (filteredRows s)"
  have tp: "totalPages s = Fin (of_int \<lceil>of_nat ?n / p\<rceil>)"
    using assms by (auto simp: totalPages_def ofNat_def)
  have pos: "(1 \<le> \<lceil>of_nat ?n / p\<rceil>) = (filteredRows s \<noteq> [])"
    using assms(2) by (simp add: zero_less_divide_iff)
  have ge: "js_le (Fin 1) (totalPages s) \<longleftrightarrow> filteredRows s \<noteq> []"
    using pos by (simp add: tp js_le_Fin)
  have empty: "filteredRows s = [] \<longrightarrow>
            totalPages s = Fin 0 \<and> startItem s = Fin 0
            \<and> (0 \<le> currentPage s \<longrightarrow> endItem s = Fin 0)
            \<and> visibleRows (renderTable s) = []"
    using assms
    by (auto simp: tp startItem_def endItem_def ofInt_def ofNat_def js_min_def isNaN_def
        visibleRows_def renderTable_def zero_less_mult_iff)
  show ?thesis using tp ge empty by blast
qed

theorem totalPages_ceiling_witness:
  "(totalPages loaded = Fin 1 \<and> js_le (Fin 1) (totalPages loaded))
   \<and> (totalPages noMatch = Fin 0 \<and> startItem noMatch = Fin 0 \<and> endItem noMatch = Fin 0
       \<and> visibleRows (renderTable noMatch) = [])"
proof -
  have p: "(0::rat) < 25" by simp
  have n1: "filteredRows loaded = exampleRows" by (simp add: filteredRows_def loaded_filtered)
  have c: "\<lceil>(3::rat) / 25\<rceil> = 1" by (rule ceiling_unique) simp_all
  from totalPages_ceiling [OF loaded_fields(2) p]
  have "totalPages loaded = Fin 1 \<and> js_le (Fin 1) (totalPages loaded)"
    by (simp add: n1 exampleRows_def c js_le_Fin)
  moreover from totalPages_ceiling [OF noMatch_fields(1) p]
  have "totalPages noMatch = Fin 0 \<and> startItem noMatch = Fin 0 \<and> endItem noMatch = Fin 0
       \<and> visibleRows (renderTable noMatch) = []"
    by (simp add: noMatch_rows noMatch_fields)
  ultimately show ?thesis by blast
qed

subsection \<open>C2: quoted fields\<close>

text \<open>
  C2 as the specification states it: parsing the header line \<open>h\<close> followed by the line
  \<open>quotedLine\<close> yields records in which the quoted comma is kept and the doubled quote
  is one quote.  That line has two fields and the header one column, so the row is
  dropped and the parse yields no record at all.
\<close>

theorem parseCSV_quoted_example_counterexample: "parseCSV quotedCsv = []"
  by code_simp

text \<open>
  C2, as amended: the line splitter turns \<open>quotedLine\<close> into the two fields \<open>a,b\<close> and
  \<open>c"d\<close>, and under the two-column header \<open>h,k\<close> the parse yields the one record with
  these values.  In general, on a line of comma-separated fields, each written plainly or
  with a quoted part in which every quote is doubled, the splitter returns the content
  of each field, trimmed: a comma in a quoted part belongs to the field, a doubled quote
  is one quote, and the white space at both ends of a field is removed.
\<close>

theorem parseCSVLine_quoted_fields:
  "parseCSVLine quotedLine = [''a,b'', ''c'' @ [dquote] @ ''d'']
   \<and> parseCSV quotedCsv2 = [[(''h'', ''a,b''), (''k'', ''c'' @ [dquote] @ ''d'')]]
   \<and> (fs \<noteq> [] \<and> list_all plainParts fs \<longrightarrow>
        parseCSVLine (lineText fs) = map (\<lambda>f. trim (fieldContent f)) fs)"
proof (intro conjI impI)
  show "parseCSVLine quotedLine = [''a,b'', ''c'' @ [dquote] @ ''d'']" by code_simp
  show "parseCSV quotedCsv2 = [[(''h'', ''a,b''), (''k'', ''c'' @ [dquote] @ ''d'')]]" by code_simp
next
  assume "fs \<noteq> [] \<and> list_all plainParts fs"
  then show "parseCSVLine (lineText fs) = map (\<lambda>f. trim (fieldContent f)) fs"
    using parseCSVLine_loop_line [of fs "[]"] by (simp add: parseCSVLine_def)
qed

theorem parseCSVLine_quoted_fields_witness:
  "lineText quotedFields = quotedLine
   \<and> parseCSVLine (lineText quotedFields) = [''a,b'', ''c'' @ [dquote] @ ''d'']
   \<and> parseCSVLine (lineText paddedFields) = [''x'', ''a,b'', ''c'' @ [dquote] @ ''d'']"
proof -
  have wf: "quotedFields \<noteq> [] \<and> list_all plainParts quotedFields"
    by (simp add: quotedFields_def plainText_def)
  have wf': "paddedFields \<noteq> [] \<and> list_all plainParts paddedFields"
    by (simp add: paddedFields_def plainText_def dquote_def comma_def)
  have tr: "map (\<lambda>f. trim (fieldContent f)) quotedFields = [''a,b'', ''c'' @ [dquote] @ ''d'']"
    by code_simp
  have tr': "map (\<lambda>f. trim (fieldContent f)) paddedFields = [''x'', ''a,b'', ''c'' @ [dquote] @ ''d'']"
    by code_simp
  have tx: "lineText quotedFields = quotedLine"
    by code_simp
  from parseCSVLine_quoted_fields [of quotedFields] wf
  have "parseCSVLine (lineText quotedFields) = map (\<lambda>f. trim (fieldContent f)) quotedFields"
    by blast
  then have a: "parseCSVLine (lineText quotedFields) = [''a,b'', ''c'' @ [dquote] @ ''d'']"
    by (rule trans) (rule tr)
  from parseCSVLine_quoted_fields [of paddedFields] wf'
  have "parseCSVLine (lineText paddedFields) = map (\<lambda>f. trim (fieldContent f)) paddedFields"
    by blast
  then have b: "parseCSVLine (lineText paddedFields) = [''x'', ''a,b'', ''c'' @ [dquote] @ ''d'']"
    by (rule trans) (rule tr')
  from tx a b show ?thesis by blast
qed

subsection \<open>C3: page navigation\<close>

text \<open>
  C3 as the specification states it: \<open>currentPage\<close> changes only through \<open>goToPage\<close>,
  \<open>previousPage\<close> and \<open>nextPage\<close>.  A search puts the viewer back on page 1: on the
  second page of the example, \<open>handleSearch\<close> changes \<open>currentPage\<close> from 2 to 1.
\<close>

theorem currentPage_search_counterexample:
  "currentPage pageTwo = 2 \<and> currentPage (step exampleCollation (HandleSearch ''a'') pageTwo) = 1"
  by (simp add: pageTwo_fields handleSearch_def filterData_fields)

text \<open>
  C3, as amended: a call changes \<open>currentPage\<close> only if it is \<open>goToPage\<close>, \<open>previousPage\<close>
  or \<open>nextPage\<close>, or if it is \<open>handleSearch\<close>, \<open>handleColumnFilter\<close>,
  \<open>handleEntriesChange\<close> or a confirmed \<open>handleLogout\<close>, which set it to 1;
  \<open>previousPage\<close> changes nothing on page 1, and \<open>nextPage\<close> changes nothing on the last
  page.
\<close>

theorem currentPage_changes:
  "(currentPage (step lc e s) \<noteq> currentPage s \<longrightarrow>
       (\<exists>p. e = GoToPage p) \<or> e = PreviousPage \<or> e = NextPage
       \<or> (currentPage (step lc e s) = 1
           \<and> ((\<exists>t. e = HandleSearch t) \<or> (\<exists>c. e = HandleColumnFilter c)
               \<or> (\<exists>v. e = HandleEntriesChange v) \<or> e = HandleLogout True)))
   \<and> (currentPage s = 1 \<longrightarrow> previousPage s = s)
   \<and> (ofInt (currentPage s) = totalPages s \<longrightarrow> nextPage s = s)"
proof (intro conjI impI)
  assume "currentPage (step lc e s) \<noteq> currentPage s"
  then show "(\<exists>p. e = GoToPage p) \<or> e = PreviousPage \<or> e = NextPage
       \<or> (currentPage (step lc e s) = 1
           \<and> ((\<exists>t. e = HandleSearch t) \<or> (\<exists>c. e = HandleColumnFilter c)
               \<or> (\<exists>v. e = HandleEntriesChange v) \<or> e = HandleLogout True))"
    by (cases e)
       (auto simp: handleSearch_def handleColumnFilter_def handleEntriesChange_def handleSort_def
          filterData_fields updatePagination_fields renderTable_fields handleLogout_page loadData_page
          split: if_splits)
next
  assume "currentPage s = 1"
  then show "previousPage s = s" by (simp add: previousPage_def)
next
  assume last: "ofInt (currentPage s) = totalPages s"
  show "nextPage s = s"
  proof (cases "itemsPerPage s = Fin (- 1)")
    case True
    with last have "currentPage s = 1" by (simp add: totalPages_def ofInt_def)
    with True show ?thesis by (simp add: nextPage_def ofNat_def ofInt_def)
  next
    case False
    with last have "js_ceil (js_div (ofNat (length (filteredRows s))) (itemsPerPage s)) = ofInt (currentPage s)"
      by (simp add: totalPages_def)
    then show ?thesis by (simp add: nextPage_def ofInt_def)
  qed
qed

theorem currentPage_changes_witness:
  "previousPage loaded = loaded \<and> nextPage pageTwo = pageTwo
   \<and> currentPage (step exampleCollation (HandleSearch ''a'') pageTwo) = 1"
proof -
  have c: "\<lceil>(3::rat) / 2\<rceil> = 2" by (rule ceiling_unique) simp_all
  have last: "ofInt (currentPage pageTwo) = totalPages pageTwo"
    by (simp add: totalPages_def pageTwo_fields ofInt_def ofNat_def exampleRows_def c)
  have ch: "currentPage (step exampleCollation (HandleSearch ''a'') pageTwo) \<noteq> currentPage pageTwo"
    by (simp add: pageTwo_fields handleSearch_def filterData_fields)
  from currentPage_changes [of exampleCollation "HandleSearch ''a''" pageTwo] ch
  have "currentPage (step exampleCollation (HandleSearch ''a'') pageTwo) = 1" by blast
  moreover from currentPage_changes [of exampleCollation PreviousPage loaded]
  have "previousPage loaded = loaded" by (simp add: loaded_fields)
  moreover from currentPage_changes [of exampleCollation NextPage pageTwo] last
  have "nextPage pageTwo = pageTwo" by blast
  ultimately show ?thesis by blast
qed

subsection \<open>C4: rows and the header's field count\<close>

text \<open>
  C4: the records that \<open>parseCSV\<close> returns are, in order, those of the data lines whose
  field count equals the header's; every other line is left out.  Each record has a value
  for every column of the header and for nothing else, a column named \<^verbatim>\<open>__proto__\<close>
  apart, whose assignment adds no property.  Under the header \<open>a,b\<close> the row \<open>1,2,3\<close> is
  dropped.
\<close>

theorem parseCSV_field_count:
  "parseCSV csvText =
     map (\<lambda>l. makeRow (parseCSVLine (hd (csvLines csvText))) 0 (parseCSVLine l) [])
       (filter (\<lambda>l. length (parseCSVLine l) = length (parseCSVLine (hd (csvLines csvText))))
          (tl (csvLines csvText)))
   \<and> (\<forall>r \<in> set (parseCSV csvText).
         fst ` set r = set (parseCSVLine (hd (csvLines csvText))) - {''__proto__''})
   \<and> parseCSV longRowCsv = []"
proof (intro conjI ballI)
  show "parseCSV longRowCsv = []" by code_simp
next
  fix r assume "r \<in> set (parseCSV csvText)"
  then obtain l where "r = makeRow (parseCSVLine (hd (csvLines csvText))) 0 (parseCSVLine l) []"
    by (subst (asm) parseCSV_eq) auto
  then show "fst ` set r = set (parseCSVLine (hd (csvLines csvText))) - {''__proto__''}"
    by (simp add: makeRow_keys)
qed (rule parseCSV_eq)

theorem parseCSV_field_count_witness:
  "parseCSV mixedCsv = [[(''a'', ''1''), (''b'', ''2'')], [(''a'', ''3''), (''b'', ''4'')]]
   \<and> fst ` set [(''a'', ''1''), (''b'', ''2'')] = {''a'', ''b''}
   \<and> parseCSV protoCsv = [[(''b'', ''y'')]]
   \<and> fst ` set [(''b'', ''y'')] = {''__proto__'', ''b''} - {''__proto__''}"
proof -
  have ls: "csvLines mixedCsv = [''a,b'', ''1,2'', ''1,2,3'', ''3,4'']" by code_simp
  have f: "parseCSVLine ''a,b'' = [''a'', ''b'']" "parseCSVLine ''1,2'' = [''1'', ''2'']"
    "parseCSVLine ''1,2,3'' = [''1'', ''2'', ''3'']" "parseCSVLine ''3,4'' = [''3'', ''4'']"
    by code_simp+
  note t = parseCSV_field_count [of mixedCsv]
  from t have "parseCSV mixedCsv =
     map (\<lambda>l. makeRow (parseCSVLine (hd (csvLines mixedCsv))) 0 (parseCSVLine l) [])
       (filter (\<lambda>l. length (parseCSVLine l) = length (parseCSVLine (hd (csvLines mixedCsv))))
          (tl (csvLines mixedCsv)))" by (rule conjunct1)
  then have p: "parseCSV mixedCsv = [[(''a'', ''1''), (''b'', ''2'')], [(''a'', ''3''), (''b'', ''4'')]]"
    by (simp add: ls f cellOr_def)
  from t have "\<forall>r \<in> set (parseCSV mixedCsv).
      fst ` set r = set (parseCSVLine (hd (csvLines mixedCsv))) - {''__proto__''}"
    by blast
  then have k: "fst ` set [(''a'', ''1''), (''b'', ''2'')] = {''a'', ''b''}"
    unfolding p by (simp add: ls f)
  have ls': "csvLines protoCsv = [''__proto__,b'', ''x,y'']" by code_simp
  have f': "parseCSVLine ''__proto__,b'' = [''__proto__'', ''b'']" "parseCSVLine ''x,y'' = [''x'', ''y'']"
    by code_simp+
  note t' = parseCSV_field_count [of protoCsv]
  from t' have "parseCSV protoCsv =
     map (\<lambda>l. makeRow (parseCSVLine (hd (csvLines protoCsv))) 0 (parseCSVLine l) [])
       (filter (\<lambda>l. length (parseCSVLine l) = length (parseCSVLine (hd (csvLines protoCsv))))
          (tl (csvLines protoCsv)))" by (rule conjunct1)
  then have p': "parseCSV protoCsv = [[(''b'', ''y'')]]"
    by (simp add: ls' f' cellOr_def)
  from t' have "\<forall>r \<in> set (parseCSV protoCsv).
      fst ` set r = set (parseCSVLine (hd (csvLines protoCsv))) - {''__proto__''}"
    by blast
  then have k': "fst ` set [(''b'', ''y'')] = {''__proto__'', ''b''} - {''__proto__''}"
    unfolding p' by (simp add: ls' f')
  from p k p' k' show ?thesis by blast
qed

subsection \<open>C5: the comparator of the sort\<close>

text \<open>
  C5: when both cell values parse as numbers, the comparator returns their difference,
  taken the other way round for the descending direction, and the sign of the result is
  that of the numeric comparison: negative exactly when the first number is the smaller
  one, positive exactly when it is the larger one, in ascending direction, and the
  reverse in descending direction.  Otherwise the comparator returns what \<open>localeCompare\<close>
  returns for the two strings under the default locale with the option \<^verbatim>\<open>numeric\<close>,
  negated for the descending direction; so, on a host whose collation is aware of numeric
  substrings, two texts that differ in a final numeral are ordered by the number, as
  \<open>item2\<close> before \<open>item10\<close>.  Sorting the values \<open>10\<close>, \<open>2\<close>, \<open>1\<close> in ascending direction
  gives \<open>1\<close>, \<open>2\<close>, \<open>10\<close>, whatever the collation.
\<close>

theorem compareRows_numeric_first:
  "(\<not> isNaN (parseFloat (cellString a column)) \<and> \<not> isNaN (parseFloat (cellString b column)) \<longrightarrow>
      compareRows lc column Asc a b
        = js_sub (parseFloat (cellString a column)) (parseFloat (cellString b column))
      \<and> compareRows lc column Desc a b
        = js_sub (parseFloat (cellString b column)) (parseFloat (cellString a column))
      \<and> (js_lt (compareRows lc column Asc a b) (Fin 0)
           \<longleftrightarrow> js_lt (parseFloat (cellString a column)) (parseFloat (cellString b column)))
      \<and> (js_lt (Fin 0) (compareRows lc column Asc a b)
           \<longleftrightarrow> js_lt (parseFloat (cellString b column)) (parseFloat (cellString a column)))
      \<and> (js_lt (compareRows lc column Desc a b) (Fin 0)
           \<longleftrightarrow> js_lt (parseFloat (cellString b column)) (parseFloat (cellString a column)))
      \<and> (js_lt (Fin 0) (compareRows lc column Desc a b)
           \<longleftrightarrow> js_lt (parseFloat (cellString a column)) (parseFloat (cellString b column))))
   \<and> (isNaN (parseFloat (cellString a column)) \<or> isNaN (parseFloat (cellString b column)) \<longrightarrow>
      compareRows lc column Asc a b
        = ofInt (lc (cellString a column) (cellString b column) None True)
      \<and> compareRows lc column Desc a b
        = ofInt (- lc (cellString a column) (cellString b column) None True))
   \<and> (numericAware lc \<and> (p = [] \<or> \<not> isDigit (last p)) \<and> isNumeral m \<and> isNumeral n
       \<and> isNaN (parseFloat (p @ m)) \<longrightarrow>
      (js_lt (compareRows lc column Asc [(column, p @ m)] [(column, p @ n)]) (Fin 0)
         \<longleftrightarrow> digitsValue m < digitsValue n)
      \<and> (js_lt (Fin 0) (compareRows lc column Asc [(column, p @ m)] [(column, p @ n)])
           \<longleftrightarrow> digitsValue n < digitsValue m)
      \<and> (js_lt (compareRows lc column Desc [(column, p @ m)] [(column, p @ n)]) (Fin 0)
           \<longleftrightarrow> digitsValue n < digitsValue m)
      \<and> (js_lt (Fin 0) (compareRows lc column Desc [(column, p @ m)] [(column, p @ n)])
           \<longleftrightarrow> digitsValue m < digitsValue n))
   \<and> map (\<lambda>r. cellString r ''v'')
        (arraySort (compareRows lc ''v'' Asc) [[(''v'', ''10'')], [(''v'', ''2'')], [(''v'', ''1'')]])
      = [''1'', ''2'', ''10'']"
proof -
  let ?aNum = "parseFloat (cellString a column)" and ?bNum = "parseFloat (cellString b column)"
  have numeric: "compareRows lc column Asc a b = js_sub ?aNum ?bNum
      \<and> compareRows lc column Desc a b = js_sub ?bNum ?aNum
      \<and> (js_lt (compareRows lc column Asc a b) (Fin 0) \<longleftrightarrow> js_lt ?aNum ?bNum)
      \<and> (js_lt (Fin 0) (compareRows lc column Asc a b) \<longleftrightarrow> js_lt ?bNum ?aNum)
      \<and> (js_lt (compareRows lc column Desc a b) (Fin 0) \<longleftrightarrow> js_lt ?bNum ?aNum)
      \<and> (js_lt (Fin 0) (compareRows lc column Desc a b) \<longleftrightarrow> js_lt ?aNum ?bNum)"
    if nn: "\<not> isNaN ?aNum \<and> \<not> isNaN ?bNum"
  proof -
    have asc: "compareRows lc column Asc a b = js_sub ?aNum ?bNum"
      and desc: "compareRows lc column Desc a b = js_sub ?bNum ?aNum"
      using nn by (simp_all add: compareRows_def Let_def)
    have da: "doubleValue x" if "?aNum = Fin x" for x using that by (rule parseFloat_double)
    have db: "doubleValue y" if "?bNum = Fin y" for y using that by (rule parseFloat_double)
    from nn have na: "\<not> isNaN ?aNum" and nb: "\<not> isNaN ?bNum" by simp_all
    from js_sub_order [OF na nb da db] js_sub_order [OF nb na db da] asc desc
    show ?thesis by simp
  qed
  have fallback: "compareRows lc column Asc a b
        = ofInt (lc (cellString a column) (cellString b column) None True)
      \<and> compareRows lc column Desc a b
        = ofInt (- lc (cellString a column) (cellString b column) None True)"
    if "isNaN ?aNum \<or> isNaN ?bNum"
    using that by (auto simp: compareRows_def Let_def)
  have aware: "(js_lt (compareRows lc column Asc [(column, p @ m)] [(column, p @ n)]) (Fin 0)
         \<longleftrightarrow> digitsValue m < digitsValue n)
      \<and> (js_lt (Fin 0) (compareRows lc column Asc [(column, p @ m)] [(column, p @ n)])
           \<longleftrightarrow> digitsValue n < digitsValue m)
      \<and> (js_lt (compareRows lc column Desc [(column, p @ m)] [(column, p @ n)]) (Fin 0)
           \<longleftrightarrow> digitsValue n < digitsValue m)
      \<and> (js_lt (Fin 0) (compareRows lc column Desc [(column, p @ m)] [(column, p @ n)])
           \<longleftrightarrow> digitsValue m < digitsValue n)"
    if h: "numericAware lc \<and> (p = [] \<or> \<not> isDigit (last p)) \<and> isNumeral m \<and> isNumeral n
       \<and> isNaN (parseFloat (p @ m))"
  proof -
    from h have "(lc (p @ m) (p @ n) None True < 0 \<longleftrightarrow> digitsValue m < digitsValue n)
        \<and> (0 < lc (p @ m) (p @ n) None True \<longleftrightarrow> digitsValue n < digitsValue m)"
      unfolding numericAware_def by blast
    with h show ?thesis
      by (simp add: compareRows_def Let_def cellString_own js_lt_ofInt)
  qed
  have example: "map (\<lambda>r. cellString r ''v'')
        (arraySort (compareRows lc ''v'' Asc) [[(''v'', ''10'')], [(''v'', ''2'')], [(''v'', ''1'')]])
      = [''1'', ''2'', ''10'']"
  proof -
    note s = js_sub_int(1) [of 2 1, simplified] js_sub_int(1) [of 10 1, simplified]
      js_sub_int(1) [of 10 2, simplified]
    show ?thesis
      by (simp add: arraySort_def compareRows_def cellString_own parseFloat_small isNaN_def s)
  qed
  from numeric fallback aware example show ?thesis by blast
qed

theorem compareRows_numeric_first_witness:
  "js_lt (Fin 0) (compareRows exampleCollation ''v'' Asc [(''v'', ''10'')] [(''v'', ''2'')])
   \<and> js_lt (compareRows exampleCollation ''v'' Desc [(''v'', ''10'')] [(''v'', ''2'')]) (Fin 0)
   \<and> js_lt (Fin 0) (compareRows exampleCollation ''v'' Asc [(''v'', ''12px'')] [(''v'', ''2'')])
   \<and> compareRows exampleCollation ''v'' Asc [(''v'', ''abc'')] [(''v'', ''abd'')] = Fin (- 1)
   \<and> compareRows exampleCollation ''v'' Desc [(''v'', ''abc'')] [(''v'', ''abd'')] = Fin 1
   \<and> js_lt (compareRows exampleCollation ''v'' Asc [(''v'', ''item2'')] [(''v'', ''item10'')]) (Fin 0)
   \<and> js_lt (Fin 0) (compareRows exampleCollation ''v'' Desc [(''v'', ''item2'')] [(''v'', ''item10'')])
   \<and> map (\<lambda>r. cellString r ''v'')
        (filteredRows (handleSort exampleCollation ''v''
           (loadData exampleCollation (Some numbersCsv) initial)))
      = [''1'', ''2'', ''10'']"
proof -
  have num: "\<not> isNaN (parseFloat (cellString [(''v'', ''10'')] ''v''))
      \<and> \<not> isNaN (parseFloat (cellString [(''v'', ''2'')] ''v''))"
    by (simp add: cellString_own parseFloat_small isNaN_def)
  have pre: "\<not> isNaN (parseFloat (cellString [(''v'', ''12px'')] ''v''))
      \<and> \<not> isNaN (parseFloat (cellString [(''v'', ''2'')] ''v''))"
    by (simp add: cellString_own parseFloat_small parseFloat_prefix isNaN_def)
  have nan: "isNaN (parseFloat (cellString [(''v'', ''abc'')] ''v''))
      \<or> isNaN (parseFloat (cellString [(''v'', ''abd'')] ''v''))"
    by (simp add: cellString_own parseFloat_NaN_letters isNaN_def)
  have lc: "exampleCollation ''abc'' ''abd'' None True = - 1"
    by (simp add: exampleCollation_def isDigit_def)
  have item: "numericAware exampleCollation \<and> (''item'' = [] \<or> \<not> isDigit (last ''item''))
      \<and> isNumeral ''2'' \<and> isNumeral ''10'' \<and> isNaN (parseFloat (''item'' @ ''2''))"
    by (simp add: numericAware_example isNumeral_def isDigit_def isNaN_def
        parseFloat_def takeSign_def trimStart_def isWhiteSpace_def)
  have dv: "digitsValue ''2'' < digitsValue ''10''" by (simp add: digitsValue_def)
  note t1 = compareRows_numeric_first
    [of "[(''v'', ''10'')]" "''v''" "[(''v'', ''2'')]" exampleCollation "[]" "[]" "[]"]
  note t2 = compareRows_numeric_first
    [of "[(''v'', ''abc'')]" "''v''" "[(''v'', ''abd'')]" exampleCollation "[]" "[]" "[]"]
  note t3 = compareRows_numeric_first
    [of "[(''v'', ''12px'')]" "''v''" "[(''v'', ''2'')]" exampleCollation "[]" "[]" "[]"]
  note t4 = compareRows_numeric_first
    [of "[]" "''v''" "[]" exampleCollation "''item''" "''2''" "''10''"]
  have lt: "js_lt (parseFloat (cellString [(''v'', ''2'')] ''v''))
      (parseFloat (cellString [(''v'', ''10'')] ''v''))"
    by (simp add: cellString_own parseFloat_small)
  from t1 num
  have "(js_lt (Fin 0) (compareRows exampleCollation ''v'' Asc [(''v'', ''10'')] [(''v'', ''2'')])
        \<longleftrightarrow> js_lt (parseFloat (cellString [(''v'', ''2'')] ''v''))
              (parseFloat (cellString [(''v'', ''10'')] ''v'')))
      \<and> (js_lt (compareRows exampleCollation ''v'' Desc [(''v'', ''10'')] [(''v'', ''2'')]) (Fin 0)
        \<longleftrightarrow> js_lt (parseFloat (cellString [(''v'', ''2'')] ''v''))
              (parseFloat (cellString [(''v'', ''10'')] ''v'')))"
    by blast
  with lt
  have a: "js_lt (Fin 0) (compareRows exampleCollation ''v'' Asc [(''v'', ''10'')] [(''v'', ''2'')])
   \<and> js_lt (compareRows exampleCollation ''v'' Desc [(''v'', ''10'')] [(''v'', ''2'')]) (Fin 0)"
    by blast
  from t2 nan
  have "compareRows exampleCollation ''v'' Asc [(''v'', ''abc'')] [(''v'', ''abd'')]
        = ofInt (exampleCollation (cellString [(''v'', ''abc'')] ''v'')
            (cellString [(''v'', ''abd'')] ''v'') None True)
      \<and> compareRows exampleCollation ''v'' Desc [(''v'', ''abc'')] [(''v'', ''abd'')]
        = ofInt (- exampleCollation (cellString [(''v'', ''abc'')] ''v'')
            (cellString [(''v'', ''abd'')] ''v'') None True)"
    by blast
  then have b: "compareRows exampleCollation ''v'' Asc [(''v'', ''abc'')] [(''v'', ''abd'')] = Fin (- 1)
   \<and> compareRows exampleCollation ''v'' Desc [(''v'', ''abc'')] [(''v'', ''abd'')] = Fin 1"
    by (simp add: ofInt_def cellString_own lc)
  have lt': "js_lt (parseFloat (cellString [(''v'', ''2'')] ''v''))
      (parseFloat (cellString [(''v'', ''12px'')] ''v''))"
    by (simp add: cellString_own parseFloat_small parseFloat_prefix)
  from t3 pre
  have "js_lt (Fin 0) (compareRows exampleCollation ''v'' Asc [(''v'', ''12px'')] [(''v'', ''2'')])
        \<longleftrightarrow> js_lt (parseFloat (cellString [(''v'', ''2'')] ''v''))
              (parseFloat (cellString [(''v'', ''12px'')] ''v''))"
    by blast
  with lt'
  have c: "js_lt (Fin 0) (compareRows exampleCollation ''v'' Asc [(''v'', ''12px'')] [(''v'', ''2'')])"
    by blast
  from t4 item
  have "(js_lt (compareRows exampleCollation ''v'' Asc [(''v'', ''item'' @ ''2'')]
            [(''v'', ''item'' @ ''10'')]) (Fin 0)
          \<longleftrightarrow> digitsValue ''2'' < digitsValue ''10'')
      \<and> (js_lt (Fin 0) (compareRows exampleCollation ''v'' Desc [(''v'', ''item'' @ ''2'')]
            [(''v'', ''item'' @ ''10'')])
          \<longleftrightarrow> digitsValue ''2'' < digitsValue ''10'')"
    by blast
  with dv
  have d: "js_lt (compareRows exampleCollation ''v'' Asc [(''v'', ''item2'')] [(''v'', ''item10'')]) (Fin 0)
   \<and> js_lt (Fin 0) (compareRows exampleCollation ''v'' Desc [(''v'', ''item2'')] [(''v'', ''item10'')])"
    by simp
  have rows: "filteredRows (handleSort exampleCollation ''v''
        (loadData exampleCollation (Some numbersCsv) initial))
      = arraySort (compareRows exampleCollation ''v'' Asc)
          [[(''v'', ''10'')], [(''v'', ''2'')], [(''v'', ''1'')]]"
    using loadData_rows [of numbersCsv exampleCollation initial]
    by (simp add: handleSort_def filterData_rows derivedRows_def loadData_fields initial_fields
        parse_numbers dataRows_def)
  from t1 have "map (\<lambda>r. cellString r ''v'')
        (arraySort (compareRows exampleCollation ''v'' Asc)
           [[(''v'', ''10'')], [(''v'', ''2'')], [(''v'', ''1'')]])
      = [''1'', ''2'', ''10'']" by blast
  with a b c d rows show ?thesis by simp
qed

subsection \<open>C6: sorting is a permutation\<close>

text \<open>
  C6: the sort returns the rows it is given, each as often as it occurs; the sequence that
  \<open>filterData\<close> derives with a sort column has the same rows as the one it derives
  without, and without a search term these are the rows of the dataset.
\<close>

theorem sort_permutation:
  "mset (arraySort (compareRows lc column dir) rows) = mset rows
   \<and> mset (filteredRows (filterData lc s)) = mset (filteredRows (filterData lc (s\<lparr>sortColumn := None\<rparr>)))
   \<and> (searchTerm s = [] \<longrightarrow> mset (filteredRows (filterData lc s)) = mset (dataRows s))"
  by (simp add: mset_arraySort filterData_rows mset_derivedRows dataRows_def)

theorem sort_permutation_witness:
  "mset (filteredRows (handleSort exampleCollation ''age'' loaded)) = mset exampleRows"
proof -
  let ?s = "loaded\<lparr>sortColumn := Some ''age'', sortDirection := Asc\<rparr>"
  have st: "searchTerm ?s = []" by (simp add: loaded_fields)
  from sort_permutation [of exampleCollation "''age''" Asc exampleRows ?s] st
  have "mset (filteredRows (filterData exampleCollation ?s)) = mset (dataRows ?s)" by blast
  then show ?thesis by (simp add: age_sorted_state dataRows_def loaded_data)
qed

subsection \<open>C7: all entries on one page\<close>

text \<open>
  C7: when \<open>itemsPerPage\<close> is the sentinel \<open>-1\<close>, the page count is 1 and the visible page is
  the whole derived sequence, in the current state and after \<open>goToPage\<close> with any page
  number.
\<close>

theorem show_all_one_page:
  assumes "itemsPerPage s = Fin (- 1)"
  shows "totalPages s = Fin 1 \<and> visibleRows (renderTable s) = filteredRows s
       \<and> totalPages (goToPage pageNum s) = Fin 1
       \<and> visibleRows (goToPage pageNum s) = filteredRows s
       \<and> filteredRows (goToPage pageNum s) = filteredRows s"
  using assms
  by (simp add: totalPages_def goToPage_def visibleRows_def renderTable_def Let_def slice_all
      updatePagination_fields renderTable_fields filteredRows_def)

theorem show_all_one_page_witness:
  "totalPages (goToPage 7 showAll) = Fin 1 \<and> visibleRows (goToPage 7 showAll) = exampleRows"
  using show_all_one_page [OF showAll_fields(1), of 7] by (simp add: showAll_fields)

subsection \<open>C8: a missing cell does not match\<close>

text \<open>
  C8: the callback of the filter raises no exception, whatever the search term, the
  column filter and the row.  On a row whose value in the filtered column is undefined
  (the row has no such property and inherits none) it returns a falsy value, so the row
  does not match, and with a search term the row is not in the sequence that
  \<open>filterData\<close> derives.
\<close>

theorem missing_cell_no_match:
  "(\<exists>found. filterCallback term column row = Inr found)
   \<and> (column \<noteq> [] \<and> getProperty row column = Undefined \<longrightarrow>
        filterCallback term column row = Inr False \<and> \<not> rowMatches term column row)
   \<and> (searchTerm s \<noteq> [] \<and> columnFilter s \<noteq> []
        \<and> getProperty row (columnFilter s) = Undefined \<longrightarrow>
        row \<notin> set (filteredRows (filterData lc s)))"
proof (intro conjI impI)
  show "\<exists>found. filterCallback term column row = Inr found" by (rule filterCallback_total)
next
  assume "column \<noteq> [] \<and> getProperty row column = Undefined"
  then show "filterCallback term column row = Inr False" by (simp add: filterCallback_missing)
next
  assume "column \<noteq> [] \<and> getProperty row column = Undefined"
  then show "\<not> rowMatches term column row" by (simp add: rowMatches_missing)
next
  assume h: "searchTerm s \<noteq> [] \<and> columnFilter s \<noteq> []
        \<and> getProperty row (columnFilter s) = Undefined"
  then have nm: "\<not> rowMatches (searchTerm s) (columnFilter s) row"
    by (simp add: rowMatches_missing)
  have "set_mset (mset (derivedRows lc s))
      = {r \<in> set (dataRows s). rowMatches (searchTerm s) (columnFilter s) r}"
    using h by (simp add: mset_derivedRows)
  then show "row \<notin> set (filteredRows (filterData lc s))"
    using nm by (simp add: filterData_rows)
qed

theorem missing_cell_no_match_witness:
  "getProperty [(''name'', ''Alice''), (''age'', ''30'')] ''city'' = Undefined
   \<and> filterCallback ''a'' ''city'' [(''name'', ''Alice''), (''age'', ''30'')] = Inr False
   \<and> \<not> rowMatches ''a'' ''city'' [(''name'', ''Alice''), (''age'', ''30'')]
   \<and> [(''name'', ''Alice''), (''age'', ''30'')]
       \<notin> set (filteredRows (handleColumnFilter exampleCollation ''city''
                  (handleSearch exampleCollation ''a'' loaded)))"
proof -
  let ?row = "[(''name'', ''Alice''), (''age'', ''30'')]"
  let ?s = "(handleSearch exampleCollation ''a'' loaded)\<lparr>columnFilter := ''city'', currentPage := 1\<rparr>"
  have lower: "toLowerCase ''a'' = ''a''" by code_simp
  have st: "searchTerm ?s = ''a''" by (simp add: handleSearch_def filterData_fields lower)
  have miss: "getProperty ?row ''city'' = Undefined"
    by (simp add: getProperty_def objectPrototype_def)
  note t = missing_cell_no_match [of "''a''" "''city''" ?row ?s exampleCollation]
  from t miss have a: "filterCallback ''a'' ''city'' ?row = Inr False
      \<and> \<not> rowMatches ''a'' ''city'' ?row" by simp
  from t miss st have "?row \<notin> set (filteredRows (filterData exampleCollation ?s))" by simp
  then have b: "?row \<notin> set (filteredRows (handleColumnFilter exampleCollation ''city''
                  (handleSearch exampleCollation ''a'' loaded)))"
    by (simp add: handleColumnFilter_def)
  from miss a b show ?thesis by blast
qed

subsection \<open>C9: the dataset is not modified\<close>

text \<open>
  C9: \<open>filterData\<close> leaves \<open>data\<close> and every array that existed before the call as they
  were, and stores the derived sequence in an array that did not exist before; so the
  rows of the dataset and their order are unchanged.
\<close>

theorem filterData_keeps_data:
  "data (filterData lc s) = data s
   \<and> (\<forall>a. a < fresh s \<longrightarrow> heap (filterData lc s) a = heap s a)
   \<and> fresh s \<le> filteredData (filterData lc s)
   \<and> (data s < fresh s \<longrightarrow> dataRows (filterData lc s) = dataRows s)"
  by (simp add: filterData_fields filterData_heap_old filterData_new dataRows_def)

theorem filterData_keeps_data_witness:
  "dataRows (handleSort exampleCollation ''age'' loaded) = exampleRows
   \<and> filteredRows (handleSort exampleCollation ''age'' loaded)
       = [[(''name'', ''Bob''), (''age'', ''25'')], [(''name'', ''Alice''), (''age'', ''30'')],
          [(''name'', ''Cara''), (''age'', ''40'')]]
   \<and> filteredData (handleSort exampleCollation ''age'' loaded) \<noteq> data (handleSort exampleCollation ''age'' loaded)
   \<and> heap (handleSort exampleCollation ''age'' loaded) (filteredData loaded) = exampleRows"
proof -
  let ?s = "loaded\<lparr>sortColumn := Some ''age'', sortDirection := Asc\<rparr>"
  have al: "data ?s < fresh ?s" using allocated_loaded by (simp add: allocated_def)
  note t = filterData_keeps_data [of exampleCollation ?s]
  from t al have "dataRows (filterData exampleCollation ?s) = dataRows ?s" by blast
  then have d: "dataRows (handleSort exampleCollation ''age'' loaded) = exampleRows"
    by (simp add: age_sorted_state dataRows_def loaded_data)
  from t al have "filteredData (filterData exampleCollation ?s) \<noteq> data (filterData exampleCollation ?s)"
    by auto
  then have n: "filteredData (handleSort exampleCollation ''age'' loaded)
      \<noteq> data (handleSort exampleCollation ''age'' loaded)"
    by (simp add: age_sorted_state)
  have "filteredData ?s < fresh ?s" using allocated_loaded by (simp add: allocated_def)
  with t have "heap (filterData exampleCollation ?s) (filteredData ?s) = heap ?s (filteredData ?s)"
    by blast
  then have h: "heap (handleSort exampleCollation ''age'' loaded) (filteredData loaded) = exampleRows"
    by (simp add: age_sorted_state loaded_filtered)
  from d n h age_sorted_rows [of exampleCollation] show ?thesis by blast
qed

subsection \<open>C10: the sort column and direction\<close>

text \<open>
  C10: a sort request on the active sort column keeps the column and flips the direction;
  a request on another column makes it the sort column, in ascending direction.
\<close>

theorem handleSort_toggle:
  "(sortColumn s = Some column \<longrightarrow>
      sortColumn (handleSort lc column s) = Some column
      \<and> sortDirection (handleSort lc column s) = (if sortDirection s = Asc then Desc else Asc))
   \<and> (sortColumn s \<noteq> Some column \<longrightarrow>
      sortColumn (handleSort lc column s) = Some column
      \<and> sortDirection (handleSort lc column s) = Asc)"
  by (simp add: handleSort_def filterData_fields)

theorem handleSort_toggle_witness:
  "sortColumn (handleSort exampleCollation ''age'' loaded) = Some ''age''
   \<and> sortDirection (handleSort exampleCollation ''age'' loaded) = Asc
   \<and> sortColumn (handleSort exampleCollation ''age'' (handleSort exampleCollation ''age'' loaded)) = Some ''age''
   \<and> sortDirection (handleSort exampleCollation ''age'' (handleSort exampleCollation ''age'' loaded)) = Desc"
proof -
  from handleSort_toggle [of loaded "''age''" exampleCollation]
  have first: "sortColumn (handleSort exampleCollation ''age'' loaded) = Some ''age''
     \<and> sortDirection (handleSort exampleCollation ''age'' loaded) = Asc"
    by (simp add: loaded_fields)
  with handleSort_toggle [of "handleSort exampleCollation ''age'' loaded" "''age''" exampleCollation]
  show ?thesis by simp
qed

end
